theory Spec2Isabelle
  imports Main
begin

section \<open>Errors, faults and the outside world\<close>

text \<open>
  The four package-level error values of \<^verbatim>\<open>options.go\<close>, and the opaque errors that
  \<^verbatim>\<open>grpc.DialContext\<close> and \<^verbatim>\<open>(*grpc.ClientConn).Close\<close> may return.
\<close>

datatype error = errClosed | errInvalid | errRejected | errTargets
  | DialError nat | CloseError nat

text \<open>
  A Go call that does not return normally: calling a nil function value, dereferencing a
  nil pointer, the panic of \<^verbatim>\<open>rand.Int63n\<close> on an argument that is not positive, and
  a channel operation that blocks for ever.
\<close>

datatype fault = NilFuncCall | NilDeref | Int63nArg | BlocksForever

text \<open>
  Instants are nanoseconds as unbounded integers, a \<^verbatim>\<open>time.Duration\<close> is its count of
  nanoseconds. The pool only compares instants and adds one duration to one instant.
  Go's \<^verbatim>\<open>/\<close> on integers truncates toward zero.
\<close>

definition quot :: "int \<Rightarrow> int \<Rightarrow> int" where
  "quot a b = sgn a * sgn b * (\<bar>a\<bar> div \<bar>b\<bar>)"

definition Millisecond :: int where
  "Millisecond = 1000000"

definition Second :: int where
  "Second = 1000000000"

definition Milliseconds :: "int \<Rightarrow> int" where
  "Milliseconds d = quot d 1000000"

text \<open>
  Everything the package asks of its surroundings is an oracle indexed by the number of
  requests made so far (\<open>step\<close> of the world below): the clock, the global random source,
  the dialer and the close of a connection. A connection handle is a number.
  \<open>rand_Int\<close> is the raw non-negative draw; \<^verbatim>\<open>rand.Int63n(n)\<close> is modelled as the draw
  reduced modulo \<open>n\<close>, so that any value of \<open>[0, n)\<close> can come out.
\<close>

record env =
  time_Now :: "nat \<Rightarrow> int"
  rand_Int :: "nat \<Rightarrow> nat"
  grpc_Dial :: "nat \<Rightarrow> int \<Rightarrow> string \<Rightarrow> error + nat"
  conn_Close :: "nat \<Rightarrow> nat \<Rightarrow> error option"

section \<open>Options (options.go)\<close>

definition IdleTimeoutType :: int where
  "IdleTimeoutType = 1"

definition FixedTimeoutType :: int where
  "FixedTimeoutType = 2"

text \<open>
  \<open>InitTargets\<close> is a slice: \<open>None\<close> is the nil slice, \<open>Some []\<close> an empty one that is
  not nil. \<open>targets\<close> is a pointer to a slice: nil (\<open>None\<close>), the address of the field
  \<open>InitTargets\<close> of the same \<^verbatim>\<open>Options\<close>, or the address of a slice received from the
  channel, which is modelled by the slice itself. \<open>input\<close> is a channel of such pointers:
  \<open>None\<close> is the nil channel, \<open>Some q\<close> a channel holding the messages \<open>q\<close> not yet
  received. The lock is left out: calls do not overlap in this model.
\<close>

datatype targets_ptr = AtInitTargets | AtSlice "string list"

record Options =
  targets :: "targets_ptr option"
  input :: "string list option list option"
  InitTargets :: "string list option"
  InitCap :: int
  MaxCap :: int
  TimeoutType :: int
  DialTimeout :: int
  IdleTimeout :: int
  ReadTimeout :: int
  WriteTimeout :: int

definition NewOptions :: Options where
  "NewOptions = \<lparr>targets = None, input = None, InitTargets = None,
     InitCap = 5, MaxCap = 100, TimeoutType = IdleTimeoutType,
     DialTimeout = 5 * Second, IdleTimeout = 60 * Second,
     ReadTimeout = 5 * Second, WriteTimeout = 5 * Second\<rparr>"

definition validate :: "Options \<Rightarrow> error option" where
  "validate opt =
     (if InitTargets opt = None \<or>
         InitCap opt \<le> 0 \<or>
         MaxCap opt \<le> 0 \<or>
         InitCap opt > MaxCap opt \<or>
         \<not> (TimeoutType opt = IdleTimeoutType \<or> TimeoutType opt = FixedTimeoutType) \<or>
         DialTimeout opt = 0 \<or>
         ReadTimeout opt = 0 \<or>
         WriteTimeout opt = 0
      then Some errInvalid else None)"

text \<open>
  \<^verbatim>\<open>update\<close> points \<open>targets\<close> at \<open>InitTargets\<close> and starts the listener. The listener is
  a goroutine; \<open>listener\<close> is one run of it over everything the channel holds. Ranging
  over a nil channel blocks for ever, so nothing is applied then. A send on a nil channel
  blocks for ever as well.
\<close>

definition slice :: "'a list option \<Rightarrow> 'a list" where
  "slice s = (case s of None \<Rightarrow> [] | Some xs \<Rightarrow> xs)"

definition deref_targets :: "Options \<Rightarrow> string list option" where
  "deref_targets opt =
     (case targets opt of None \<Rightarrow> None
      | Some AtInitTargets \<Rightarrow> Some (slice (InitTargets opt))
      | Some (AtSlice ts) \<Rightarrow> Some ts)"

definition update :: "Options \<Rightarrow> Options" where
  "update opt = opt\<lparr>targets := Some AtInitTargets\<rparr>"

fun receive_all :: "string list option list \<Rightarrow> Options \<Rightarrow> Options" where
  "receive_all [] opt = opt"
| "receive_all (m # ms) opt =
     (case m of None \<Rightarrow> receive_all ms opt
      | Some ts \<Rightarrow> receive_all ms (opt\<lparr>targets := Some (AtSlice ts)\<rparr>))"

definition listener :: "Options \<Rightarrow> Options" where
  "listener opt =
     (case input opt of None \<Rightarrow> opt
      | Some ms \<Rightarrow> receive_all ms (opt\<lparr>input := Some []\<rparr>))"

definition send_Input :: "Options \<Rightarrow> string list option \<Rightarrow> fault + Options" where
  "send_Input opt m =
     (case input opt of None \<Rightarrow> Inl BlocksForever
      | Some ms \<Rightarrow> Inr (opt\<lparr>input := Some (ms @ [m])\<rparr>))"

section \<open>The pool (pool\_grpc.go)\<close>

text \<open>
  A \<^verbatim>\<open>*GrpcIdleConn\<close> is an address into \<open>heap\<close>; the channel \<open>conns\<close> holds addresses, so
  one wrapper can be stored twice and a write to its \<open>t\<close> is seen through both.
  \<open>next_ptr\<close> is the next address \<^verbatim>\<open>&GrpcIdleConn{...}\<close> allocates. \<open>closed\<close> and
  \<open>dialed\<close> log the handles closed and the targets dialed, oldest first. The
  \<^verbatim>\<open>*Options\<close> the pool's factory reads is \<open>opts\<close>.

  A channel is the queue of what it holds, oldest first, and its capacity; the memory a
  channel of that capacity takes is not modelled. A pool is used by one caller at a time:
  a receive finds the channel empty exactly when the queue is empty, and never finds it
  closed. The two function fields of the pool are nil or the closure \<^verbatim>\<open>NewGRPCPool\<close>
  stores in them.
\<close>

record GrpcIdleConn =
  Conn :: "nat option"
  t :: int

record world =
  step :: nat
  heap :: "nat \<Rightarrow> GrpcIdleConn"
  next_ptr :: nat
  closed :: "nat list"
  dialed :: "string list"
  opts :: Options

record chan =
  chan_buf :: "nat list"
  chan_cap :: nat

datatype factory_fn = DialNextTarget
datatype close_fn = ConnClose

record GRPCPool =
  pool_IdleTimeout :: int
  timeoutType :: int
  conns :: "chan option"
  factory :: "factory_fn option"
  close :: "close_fn option"

definition nextTarget :: "env \<Rightarrow> world \<Rightarrow> fault + (string \<times> world)" where
  "nextTarget e w =
     (case deref_targets (opts w) of None \<Rightarrow> Inl NilDeref
      | Some ts \<Rightarrow>
          (let tlen = length ts in
           if tlen \<le> 0 then Inr ('''', w)
           else Inr (ts ! (rand_Int e (step w) mod tlen), w\<lparr>step := Suc (step w)\<rparr>)))"

text \<open>The closure stored in \<open>factory\<close> by \<^verbatim>\<open>NewGRPCPool\<close>.\<close>

fun call_factory :: "env \<Rightarrow> factory_fn \<Rightarrow> world \<Rightarrow> fault + ((error + nat) \<times> world)" where
  "call_factory e DialNextTarget w =
     (case nextTarget e w of Inl f \<Rightarrow> Inl f
      | Inr (target, w1) \<Rightarrow>
          if target = '''' then Inr (Inl errTargets, w1)
          else Inr (grpc_Dial e (step w1) (DialTimeout (opts w1)) target,
                    w1\<lparr>step := Suc (step w1), dialed := dialed w1 @ [target]\<rparr>))"

text \<open>The closure stored in \<open>close\<close>: \<^verbatim>\<open>v.Close()\<close>, which needs \<open>v\<close> not nil.\<close>

fun call_close :: "env \<Rightarrow> close_fn \<Rightarrow> nat option \<Rightarrow> world \<Rightarrow> fault + (error option \<times> world)" where
  "call_close e ConnClose None w = Inl NilDeref"
| "call_close e ConnClose (Some h) w =
     Inr (conn_Close e (step w) h, w\<lparr>step := Suc (step w), closed := closed w @ [h]\<rparr>)"

definition alloc :: "GrpcIdleConn \<Rightarrow> world \<Rightarrow> nat \<times> world" where
  "alloc v w = (next_ptr w, w\<lparr>heap := (heap w)(next_ptr w := v), next_ptr := Suc (next_ptr w)\<rparr>)"

definition Int63n :: "env \<Rightarrow> int \<Rightarrow> world \<Rightarrow> fault + (int \<times> world)" where
  "Int63n e n w =
     (if n \<le> 0 then Inl Int63nArg
      else Inr (int (rand_Int e (step w) mod nat n), w\<lparr>step := Suc (step w)\<rparr>))"

definition createGrpcIdleConn :: "env \<Rightarrow> GRPCPool \<Rightarrow> nat \<Rightarrow> world \<Rightarrow> fault + (nat \<times> world)" where
  "createGrpcIdleConn e c conn w =
     (let now = time_Now e (step w); w1 = w\<lparr>step := Suc (step w)\<rparr> in
      if timeoutType c = IdleTimeoutType then Inr (alloc \<lparr>Conn = Some conn, t = now\<rparr> w1)
      else if timeoutType c = FixedTimeoutType then
        (case Int63n e (quot (Milliseconds (pool_IdleTimeout c)) 2) w1 of
           Inl f \<Rightarrow> Inl f
         | Inr (k, w2) \<Rightarrow> Inr (alloc \<lparr>Conn = Some conn, t = now + (- Millisecond) * k\<rparr> w2))
      else Inr (alloc \<lparr>Conn = Some conn, t = now\<rparr> w1))"

text \<open>
  \<^verbatim>\<open>Get\<close>: the \<^verbatim>\<open>for\<close>/\<^verbatim>\<open>select\<close> loop runs over the entries the channel holds; the
  \<^verbatim>\<open>default\<close> branch is the empty channel. The result carries the pool with what is left
  in the channel.
\<close>

definition set_buf :: "GRPCPool \<Rightarrow> nat \<Rightarrow> nat list \<Rightarrow> GRPCPool" where
  "set_buf c n q = c\<lparr>conns := Some \<lparr>chan_buf = q, chan_cap = n\<rparr>\<rparr>"

fun Get_loop :: "env \<Rightarrow> GRPCPool \<Rightarrow> nat \<Rightarrow> nat list \<Rightarrow> world \<Rightarrow>
    fault + ((error + nat) \<times> GRPCPool \<times> world)" where
  "Get_loop e c n [] w =
     (case factory c of None \<Rightarrow> Inl NilFuncCall
      | Some f \<Rightarrow>
          (case call_factory e f w of Inl x \<Rightarrow> Inl x
           | Inr (Inl err, w1) \<Rightarrow> Inr (Inl err, set_buf c n [], w1)
           | Inr (Inr conn, w1) \<Rightarrow>
               (case createGrpcIdleConn e c conn w1 of Inl x \<Rightarrow> Inl x
                | Inr (p, w2) \<Rightarrow> Inr (Inr p, set_buf c n [], w2))))"
| "Get_loop e c n (p # q) w =
     (if Conn (heap w p) = None then Inr (Inl errClosed, set_buf c n q, w)
      else if pool_IdleTimeout c > 0 then
        (let now = time_Now e (step w); w1 = w\<lparr>step := Suc (step w)\<rparr> in
         if t (heap w p) + pool_IdleTimeout c < now then
           (case close c of None \<Rightarrow> Inl NilFuncCall
            | Some f \<Rightarrow>
                (case call_close e f (Conn (heap w p)) w1 of Inl x \<Rightarrow> Inl x
                 | Inr (r, w2) \<Rightarrow> Get_loop e c n q w2))
         else Inr (Inr p, set_buf c n q, w1))
      else Inr (Inr p, set_buf c n q, w))"

definition Get :: "env \<Rightarrow> GRPCPool \<Rightarrow> world \<Rightarrow> fault + ((error + nat) \<times> GRPCPool \<times> world)" where
  "Get e c w =
     (case conns c of None \<Rightarrow> Inr (Inl errClosed, c, w)
      | Some ch \<Rightarrow> Get_loop e c (chan_cap ch) (chan_buf ch) w)"

text \<open>\<^verbatim>\<open>Put\<close>: the argument is a pointer, \<open>None\<close> is nil.\<close>

definition Put :: "env \<Rightarrow> GRPCPool \<Rightarrow> nat option \<Rightarrow> world \<Rightarrow>
    fault + (error option \<times> GRPCPool \<times> world)" where
  "Put e c conn w =
     (case conn of None \<Rightarrow> Inr (Some errRejected, c, w)
      | Some p \<Rightarrow>
          if Conn (heap w p) = None then Inr (Some errRejected, c, w)
          else
            (case conns c of
               None \<Rightarrow>
                 (case close c of None \<Rightarrow> Inl NilFuncCall
                  | Some f \<Rightarrow>
                      (case call_close e f (Conn (heap w p)) w of Inl x \<Rightarrow> Inl x
                       | Inr (r, w1) \<Rightarrow> Inr (r, c, w1)))
             | Some ch \<Rightarrow>
                 (let w1 = (if timeoutType c = IdleTimeoutType
                            then w\<lparr>step := Suc (step w),
                                   heap := (heap w)(p := (heap w p)\<lparr>t := time_Now e (step w)\<rparr>)\<rparr>
                            else w) in
                  if length (chan_buf ch) < chan_cap ch
                  then Inr (None, c\<lparr>conns := Some (ch\<lparr>chan_buf := chan_buf ch @ [p]\<rparr>)\<rparr>, w1)
                  else
                    (case close c of None \<Rightarrow> Inl NilFuncCall
                     | Some f \<Rightarrow>
                         (case call_close e f (Conn (heap w1 p)) w1 of Inl x \<Rightarrow> Inl x
                          | Inr (r, w2) \<Rightarrow> Inr (r, c, w2))))))"

text \<open>\<^verbatim>\<open>Close\<close>: the drained entries are closed through the captured \<open>closeFun\<close>.\<close>

fun drain :: "env \<Rightarrow> close_fn option \<Rightarrow> nat list \<Rightarrow> world \<Rightarrow> fault + world" where
  "drain e closeFun [] w = Inr w"
| "drain e closeFun (p # q) w =
     (case closeFun of None \<Rightarrow> Inl NilFuncCall
      | Some f \<Rightarrow>
          (case call_close e f (Conn (heap w p)) w of Inl x \<Rightarrow> Inl x
           | Inr (r, w1) \<Rightarrow> drain e closeFun q w1))"

definition Close :: "env \<Rightarrow> GRPCPool \<Rightarrow> world \<Rightarrow> fault + (GRPCPool \<times> world)" where
  "Close e c w =
     (let conns0 = conns c; closeFun = close c;
          c1 = c\<lparr>conns := None, factory := None, close := None\<rparr> in
      case conns0 of None \<Rightarrow> Inr (c1, w)
      | Some ch \<Rightarrow>
          (case drain e closeFun (chan_buf ch) w of Inl x \<Rightarrow> Inl x
           | Inr w1 \<Rightarrow> Inr (c1, w1)))"

definition IdleCount :: "GRPCPool \<Rightarrow> nat" where
  "IdleCount c = (case conns c of None \<Rightarrow> 0 | Some ch \<Rightarrow> length (chan_buf ch))"

text \<open>
  \<^verbatim>\<open>NewGRPCPool\<close>: \<open>init_conns\<close> is the loop that fills the pool; its send into the channel
  is a blocking one. \<^verbatim>\<open>make\<close> is taken to succeed for every capacity: its panic for a
  capacity larger than the platform can allocate is not modelled.
\<close>

fun init_conns :: "env \<Rightarrow> GRPCPool \<Rightarrow> nat \<Rightarrow> world \<Rightarrow>
    fault + ((error + GRPCPool) \<times> world)" where
  "init_conns e pool 0 w = Inr (Inr pool, w)"
| "init_conns e pool (Suc i) w =
     (case factory pool of None \<Rightarrow> Inl NilFuncCall
      | Some f \<Rightarrow>
          (case call_factory e f w of Inl x \<Rightarrow> Inl x
           | Inr (Inl err, w1) \<Rightarrow>
               (case Close e pool w1 of Inl x \<Rightarrow> Inl x
                | Inr (pool1, w2) \<Rightarrow> Inr (Inl err, w2))
           | Inr (Inr conn, w1) \<Rightarrow>
               (case createGrpcIdleConn e pool conn w1 of Inl x \<Rightarrow> Inl x
                | Inr (p, w2) \<Rightarrow>
                    (case conns pool of None \<Rightarrow> Inl BlocksForever
                     | Some ch \<Rightarrow>
                         if length (chan_buf ch) < chan_cap ch
                         then init_conns e
                                (pool\<lparr>conns := Some (ch\<lparr>chan_buf := chan_buf ch @ [p]\<rparr>)\<rparr>) i w2
                         else Inl BlocksForever))))"

definition NewGRPCPool :: "env \<Rightarrow> world \<Rightarrow> fault + ((error + GRPCPool) \<times> world)" where
  "NewGRPCPool e w =
     (case validate (opts w) of Some err \<Rightarrow> Inr (Inl err, w)
      | None \<Rightarrow>
          (let pool = \<lparr>pool_IdleTimeout = IdleTimeout (opts w),
                       timeoutType = TimeoutType (opts w),
                       conns = Some \<lparr>chan_buf = [], chan_cap = nat (MaxCap (opts w))\<rparr>,
                       factory = Some DialNextTarget,
                       close = Some ConnClose\<rparr>;
               w1 = w\<lparr>opts := update (opts w)\<rparr>
           in init_conns e pool (nat (InitCap (opts w1))) w1))"

section \<open>Sequences of calls\<close>

text \<open>
  A client calls the four methods in any order. Between two calls the rest of the program
  may do anything to the world (build or edit wrappers, let time pass, assign fields of
  the options): \<open>Other\<close>. It does not assign the fields of the pool. A fault ends the run.
\<close>

datatype op = OpGet | OpPut "nat option" | OpClose | OpIdleCount | Other "world \<Rightarrow> world"

fun apply_op :: "env \<Rightarrow> op \<Rightarrow> GRPCPool \<Rightarrow> world \<Rightarrow> fault + (GRPCPool \<times> world)" where
  "apply_op e OpGet c w =
     (case Get e c w of Inl x \<Rightarrow> Inl x | Inr (r, c1, w1) \<Rightarrow> Inr (c1, w1))"
| "apply_op e (OpPut conn) c w =
     (case Put e c conn w of Inl x \<Rightarrow> Inl x | Inr (r, c1, w1) \<Rightarrow> Inr (c1, w1))"
| "apply_op e OpClose c w = Close e c w"
| "apply_op e OpIdleCount c w = Inr (c, w)"
| "apply_op e (Other g) c w = Inr (c, g w)"

fun run :: "env \<Rightarrow> op list \<Rightarrow> GRPCPool \<Rightarrow> world \<Rightarrow> fault + (GRPCPool \<times> world)" where
  "run e [] c w = Inr (c, w)"
| "run e (x # xs) c w =
     (case apply_op e x c w of Inl f \<Rightarrow> Inl f | Inr (c1, w1) \<Rightarrow> run e xs c1 w1)"

text \<open>
  What every pool built by \<^verbatim>\<open>NewGRPCPool\<close> satisfies while it is open, for a channel of
  capacity \<open>m\<close>.
\<close>

definition jitter_ok :: "GRPCPool \<Rightarrow> bool" where
  "jitter_ok c =
     (timeoutType c = IdleTimeoutType \<or>
      timeoutType c = FixedTimeoutType \<and> 0 < quot (Milliseconds (pool_IdleTimeout c)) 2)"

definition pool_inv :: "nat \<Rightarrow> GRPCPool \<Rightarrow> bool" where
  "pool_inv m c =
     (case conns c of None \<Rightarrow> True
      | Some ch \<Rightarrow> chan_cap ch = m \<and> length (chan_buf ch) \<le> m \<and>
          factory c = Some DialNextTarget \<and> close c = Some ConnClose \<and> jitter_ok c)"

section \<open>Concrete surroundings\<close>

text \<open>
  A world in which the clock reads the request number in seconds, every draw is its
  request number, every dial succeeds with the request number as handle, and every close
  succeeds; one in which every close fails; an empty world around given options; and
  options with the one target \<open>A\<close>, \<open>InitCap = 1\<close>, \<open>MaxCap = 2\<close> and the defaults of
  \<^verbatim>\<open>NewOptions\<close> for the rest (idle policy, a timeout of a minute).
\<close>

definition ex_env :: env where
  "ex_env = \<lparr>time_Now = (\<lambda>k. int k * Second), rand_Int = (\<lambda>k. k),
     grpc_Dial = (\<lambda>k d s. Inr k), conn_Close = (\<lambda>k h. None)\<rparr>"

definition ex_env_close_fails :: env where
  "ex_env_close_fails = ex_env\<lparr>conn_Close := (\<lambda>k h. Some (CloseError h))\<rparr>"

definition ex_world :: "Options \<Rightarrow> world" where
  "ex_world opt = \<lparr>step = 0, heap = (\<lambda>p. \<lparr>Conn = None, t = 0\<rparr>), next_ptr = 0,
     closed = [], dialed = [], opts = opt\<rparr>"

definition ex_opts :: Options where
  "ex_opts = NewOptions\<lparr>InitTargets := Some [''A''], InitCap := 1, MaxCap := 2\<rparr>"

text \<open>
  A pool with given timeout, policy, stored addresses and capacity; the world right after
  \<^verbatim>\<open>NewGRPCPool\<close> on \<open>ex_opts\<close>; that world after the client has set the field \<open>Conn\<close> of
  the stored wrapper to nil; and that world with a second wrapper, built by the client
  around connection 11.
\<close>

definition ex_pool :: "int \<Rightarrow> int \<Rightarrow> nat list \<Rightarrow> nat \<Rightarrow> GRPCPool" where
  "ex_pool d ty q n = \<lparr>pool_IdleTimeout = d, timeoutType = ty,
     conns = Some \<lparr>chan_buf = q, chan_cap = n\<rparr>,
     factory = Some DialNextTarget, close = Some ConnClose\<rparr>"

definition ex_world1 :: world where
  "ex_world1 = \<lparr>step = 3,
     heap = (\<lambda>p. \<lparr>Conn = None, t = 0\<rparr>)(0 := \<lparr>Conn = Some 1, t = 2 * Second\<rparr>),
     next_ptr = 1, closed = [], dialed = [''A''], opts = update ex_opts\<rparr>"

definition ex_world1_nil :: world where
  "ex_world1_nil = ex_world1\<lparr>heap := (heap ex_world1)(0 := \<lparr>Conn = None, t = 2 * Second\<rparr>)\<rparr>"

definition ex_world2 :: world where
  "ex_world2 = ex_world1\<lparr>heap := (heap ex_world1)(1 := \<lparr>Conn = Some 11, t = 0\<rparr>), next_ptr := 2\<rparr>"

lemmas ex_defs = ex_env_def ex_env_close_fails_def ex_world_def ex_opts_def NewOptions_def
  IdleTimeoutType_def FixedTimeoutType_def Second_def Millisecond_def

lemmas eval_defs = NewGRPCPool_def validate_def update_def slice_def deref_targets_def nextTarget_def
  createGrpcIdleConn_def alloc_def Int63n_def Get_def Put_def Close_def IdleCount_def
  set_buf_def Let_def Milliseconds_def quot_def ex_pool_def ex_world1_def ex_defs

section \<open>Durations\<close>

lemma quot_nonneg: "0 \<le> a \<Longrightarrow> 0 < b \<Longrightarrow> quot a b = a div b"
  by (cases "a = 0") (simp_all add: quot_def)

lemma quot_nonpos: "a \<le> 0 \<Longrightarrow> 0 < b \<Longrightarrow> quot a b \<le> 0"
  by (simp add: quot_def sgn_if pos_imp_zdiv_nonneg_iff)

lemma half_Milliseconds:
  "0 \<le> d \<Longrightarrow> quot (Milliseconds d) 2 = d div (2 * Millisecond)"
proof -
  assume d: "0 \<le> d"
  then have "Milliseconds d = d div 1000000"
    by (simp add: Milliseconds_def quot_nonneg)
  moreover from d have "0 \<le> d div 1000000"
    by (simp add: pos_imp_zdiv_nonneg_iff)
  ultimately have "quot (Milliseconds d) 2 = (d div 1000000) div 2"
    by (simp add: quot_nonneg)
  also have "\<dots> = d div (2 * Millisecond)"
    by (simp add: Millisecond_def div_mult2_eq)
  finally show ?thesis .
qed

lemma half_Milliseconds_neg: "d \<le> 0 \<Longrightarrow> quot (Milliseconds d) 2 \<le> 0"
  by (simp add: Milliseconds_def quot_nonpos)

lemma half_Milliseconds_pos_iff:
  "0 < quot (Milliseconds d) 2 \<longleftrightarrow> 2 * Millisecond \<le> d"
proof (cases "0 \<le> d")
  case True
  then show ?thesis
    by (simp add: half_Milliseconds Millisecond_def pos_imp_zdiv_pos_iff)
next
  case False
  then have "quot (Milliseconds d) 2 \<le> 0"
    by (simp add: half_Milliseconds_neg)
  with False show ?thesis
    by (simp add: Millisecond_def)
qed

lemma jitter_window:
  fixes d :: int
  assumes "2 * Millisecond \<le> d"
  shows "0 \<le> int (r mod nat (d div (2 * Millisecond))) * Millisecond"
    and "2 * (int (r mod nat (d div (2 * Millisecond))) * Millisecond) < d"
proof -
  let ?n = "d div (2 * Millisecond)"
  let ?k = "int (r mod nat ?n)"
  from assms have n: "0 < ?n"
    by (simp add: Millisecond_def pos_imp_zdiv_pos_iff)
  then have "r mod nat ?n < nat ?n" by simp
  with n have "?k < ?n" by linarith
  then have "?k + 1 \<le> ?n" by simp
  then have "(?k + 1) * (2 * Millisecond) \<le> ?n * (2 * Millisecond)"
    by (simp add: Millisecond_def)
  moreover have "?n * (2 * Millisecond) \<le> d"
    by (simp add: Millisecond_def)
  ultimately show "2 * (?k * Millisecond) < d"
    by (simp add: Millisecond_def algebra_simps)
  show "0 \<le> ?k * Millisecond"
    by (simp add: Millisecond_def)
qed

text \<open>
  Reducing a draw modulo \<open>n\<close> favours no value: among the draws below any multiple of
  \<open>n\<close>, each value below \<open>n\<close> comes from equally many.
\<close>

lemma residue_class_card:
  assumes "0 < n" and "k < n"
  shows "card {r::nat. r < m * n \<and> r mod n = k} = m"
proof -
  have "{r. r < m * n \<and> r mod n = k} = (\<lambda>i. i * n + k) ` {..<m}"
  proof (intro set_eqI iffI)
    fix r assume "r \<in> {r. r < m * n \<and> r mod n = k}"
    then have r: "r < m * n" and k: "r mod n = k" by simp_all
    have "r = (r div n) * n + k" using k by (metis div_mult_mod_eq)
    moreover from r assms(1) have "r div n < m"
      by (simp add: less_mult_imp_div_less)
    ultimately show "r \<in> (\<lambda>i. i * n + k) ` {..<m}" by blast
  next
    fix r assume "r \<in> (\<lambda>i. i * n + k) ` {..<m}"
    then obtain i where i: "i < m" and r: "r = i * n + k" by auto
    from i have "Suc i \<le> m" by simp
    then have "Suc i * n \<le> m * n" by (rule mult_le_mono1)
    with assms(2) r have "r < m * n" by simp
    moreover from r assms(2) have "r mod n = k" by simp
    ultimately show "r \<in> {r. r < m * n \<and> r mod n = k}" by simp
  qed
  moreover from assms(1) have "inj_on (\<lambda>i. i * n + k) {..<m}"
    by (auto simp: inj_on_def)
  ultimately show ?thesis by (simp add: card_image)
qed

section \<open>The operations, one call at a time\<close>

lemma createGrpcIdleConn_Idle:
  "timeoutType c = IdleTimeoutType \<Longrightarrow>
   createGrpcIdleConn e c conn w =
     Inr (next_ptr w,
          w\<lparr>step := Suc (step w),
            heap := (heap w)(next_ptr w := \<lparr>Conn = Some conn, t = time_Now e (step w)\<rparr>),
            next_ptr := Suc (next_ptr w)\<rparr>)"
  by (simp add: createGrpcIdleConn_def alloc_def)

lemma createGrpcIdleConn_Fixed:
  "timeoutType c = FixedTimeoutType \<Longrightarrow> 0 < quot (Milliseconds (pool_IdleTimeout c)) 2 \<Longrightarrow>
   createGrpcIdleConn e c conn w =
     Inr (next_ptr w,
          w\<lparr>step := Suc (Suc (step w)),
            heap := (heap w)(next_ptr w := \<lparr>Conn = Some conn,
              t = time_Now e (step w) -
                  int (rand_Int e (Suc (step w)) mod nat (quot (Milliseconds (pool_IdleTimeout c)) 2))
                    * Millisecond\<rparr>),
            next_ptr := Suc (next_ptr w)\<rparr>)"
  by (simp add: createGrpcIdleConn_def alloc_def Int63n_def IdleTimeoutType_def FixedTimeoutType_def
      mult.commute)

lemma createGrpcIdleConn_Fixed_fault:
  "timeoutType c = FixedTimeoutType \<Longrightarrow> quot (Milliseconds (pool_IdleTimeout c)) 2 \<le> 0 \<Longrightarrow>
   createGrpcIdleConn e c conn w = Inl Int63nArg"
  by (simp add: createGrpcIdleConn_def Int63n_def IdleTimeoutType_def FixedTimeoutType_def)

lemma createGrpcIdleConn_jitter_ok:
  "createGrpcIdleConn e c conn w = Inr x \<Longrightarrow>
   timeoutType c = IdleTimeoutType \<or> timeoutType c = FixedTimeoutType \<Longrightarrow> jitter_ok c"
  by (auto simp: jitter_ok_def createGrpcIdleConn_def Int63n_def Let_def split: if_splits)

lemma jitter_ok_createGrpcIdleConn:
  "jitter_ok c \<Longrightarrow> \<exists>w1. createGrpcIdleConn e c conn w = Inr (next_ptr w, w1) \<and>
      Conn (heap w1 (next_ptr w)) = Some conn"
  unfolding jitter_ok_def
  by (auto simp: createGrpcIdleConn_Idle createGrpcIdleConn_Fixed)

lemma set_buf_simps [simp]:
  "pool_IdleTimeout (set_buf c n q) = pool_IdleTimeout c"
  "timeoutType (set_buf c n q) = timeoutType c"
  "factory (set_buf c n q) = factory c"
  "close (set_buf c n q) = close c"
  "conns (set_buf c n q) = Some \<lparr>chan_buf = q, chan_cap = n\<rparr>"
  "set_buf (set_buf c n q0) n q = set_buf c n q"
  by (simp_all add: set_buf_def)

lemma set_buf_same:
  "conns c = Some ch \<Longrightarrow> set_buf c (chan_cap ch) (chan_buf ch) = c"
  by (simp add: set_buf_def)

lemma createGrpcIdleConn_set_buf [simp]:
  "createGrpcIdleConn e (set_buf c n q) conn w = createGrpcIdleConn e c conn w"
  by (simp add: createGrpcIdleConn_def Let_def)

lemma Get_loop_set_buf:
  "Get_loop e (set_buf c n q0) n q w = Get_loop e c n q w"
  by (induction q arbitrary: w) (simp_all add: Let_def split: option.splits sum.splits)

lemma Get_loop_result:
  "Get_loop e c n q w = Inr (r, c1, w1) \<Longrightarrow>
   \<exists>q1. c1 = set_buf c n q1 \<and> length q1 \<le> length q"
proof (induction q arbitrary: w)
  case Nil
  then show ?case
    by (auto split: option.splits sum.splits prod.splits)
next
  case (Cons p q)
  show ?case
  proof (cases "Conn (heap w p) \<noteq> None \<and> 0 < pool_IdleTimeout c \<and>
      t (heap w p) + pool_IdleTimeout c < time_Now e (step w)")
    case True
    with Cons.prems obtain w2 where "Get_loop e c n q w2 = Inr (r, c1, w1)"
      by (auto simp: Let_def split: option.splits sum.splits prod.splits)
    from Cons.IH [OF this] show ?thesis by auto
  next
    case False
    with Cons.prems have "c1 = set_buf c n q"
      by (auto simp: Let_def split: if_splits)
    then show ?thesis by auto
  qed
qed

lemma call_close_Some:
  "call_close e f (Some h) w =
     Inr (conn_Close e (step w) h, w\<lparr>step := Suc (step w), closed := closed w @ [h]\<rparr>)"
  by (cases f) simp

lemma call_close_env:
  "call_close (e\<lparr>conn_Close := cl\<rparr>) f (Some h) w =
     Inr (cl (step w) h, w\<lparr>step := Suc (step w), closed := closed w @ [h]\<rparr>)"
  by (cases f) simp

lemma nextTarget_close_env [simp]:
  "nextTarget (e\<lparr>conn_Close := cl\<rparr>) w = nextTarget e w"
  by (simp add: nextTarget_def Let_def split: option.splits)

lemma call_factory_close_env [simp]:
  "call_factory (e\<lparr>conn_Close := cl\<rparr>) f w = call_factory e f w"
  by (cases f) (simp split: sum.splits prod.splits)

lemma createGrpcIdleConn_close_env [simp]:
  "createGrpcIdleConn (e\<lparr>conn_Close := cl\<rparr>) c conn w = createGrpcIdleConn e c conn w"
  by (simp add: createGrpcIdleConn_def Int63n_def Let_def)

lemma Get_loop_close_env:
  "Get_loop (e\<lparr>conn_Close := cl\<rparr>) c n q w = Get_loop e c n q w"
proof (induction q arbitrary: w)
  case Nil
  show ?case by (simp split: option.splits sum.splits prod.splits)
next
  case (Cons p q)
  show ?case
  proof (cases "Conn (heap w p)")
    case None
    then show ?thesis by simp
  next
    case (Some h)
    with Cons.IH show ?thesis
      by (simp add: Let_def call_close_env call_close_Some split: option.splits)
  qed
qed

lemma Get_head_nil:
  assumes "conns c = Some ch" and "chan_buf ch = p # q" and "Conn (heap w p) = None"
  shows "Get e c w = Inr (Inl errClosed, set_buf c (chan_cap ch) q, w)"
  using assms by (simp add: Get_def)

lemma Get_head_fresh:
  assumes "conns c = Some ch" and "chan_buf ch = p # q" and "Conn (heap w p) = Some h"
    and "0 < pool_IdleTimeout c" and "time_Now e (step w) - t (heap w p) \<le> pool_IdleTimeout c"
  shows "Get e c w = Inr (Inr p, set_buf c (chan_cap ch) q, w\<lparr>step := Suc (step w)\<rparr>)"
  using assms by (simp add: Get_def Let_def)

lemma Get_skips_expiry_when_disabled:
  assumes "conns c = Some ch" and "chan_buf ch = p # q" and "Conn (heap w p) = Some h"
    and "pool_IdleTimeout c \<le> 0"
  shows "Get e c w = Inr (Inr p, set_buf c (chan_cap ch) q, w)"
  using assms by (simp add: Get_def)

lemma Get_head_expired:
  assumes "conns c = Some ch" and "chan_buf ch = p # q" and "Conn (heap w p) = Some h"
    and "0 < pool_IdleTimeout c" and "pool_IdleTimeout c < time_Now e (step w) - t (heap w p)"
    and "close c = Some ConnClose"
  shows "Get e c w = Get e (set_buf c (chan_cap ch) q)
           (w\<lparr>step := Suc (Suc (step w)), closed := closed w @ [h]\<rparr>)"
proof -
  from assms(5) have "t (heap w p) + pool_IdleTimeout c < time_Now e (step w)" by simp
  with assms show ?thesis
    by (simp add: Get_def Let_def Get_loop_set_buf)
qed

lemma Get_empty_dial_ok:
  assumes "conns c = Some ch" and "chan_buf ch = []" and "factory c = Some DialNextTarget"
    and "jitter_ok c" and "call_factory e DialNextTarget w = Inr (Inr h, w2)"
  shows "\<exists>w3. Get e c w = Inr (Inr (next_ptr w2), c, w3) \<and> Conn (heap w3 (next_ptr w2)) = Some h"
proof -
  from jitter_ok_createGrpcIdleConn [OF assms(4), of e h w2] obtain w3
    where cr: "createGrpcIdleConn e c h w2 = Inr (next_ptr w2, w3)"
      and h: "Conn (heap w3 (next_ptr w2)) = Some h"
    by blast
  from assms(1,2) have "set_buf c (chan_cap ch) [] = c"
    by (simp add: set_buf_def)
  with assms cr have "Get e c w = Inr (Inr (next_ptr w2), c, w3)"
    by (simp add: Get_def)
  with h show ?thesis by blast
qed

lemma Get_empty_dial_error:
  assumes "conns c = Some ch" and "chan_buf ch = []" and "factory c = Some DialNextTarget"
    and "call_factory e DialNextTarget w = Inr (Inl err, w2)"
  shows "Get e c w = Inr (Inl err, c, w2)"
proof -
  from assms(1,2) have "set_buf c (chan_cap ch) [] = c"
    by (simp add: set_buf_def)
  with assms show ?thesis
    by (simp add: Get_def)
qed

lemma Put_result:
  assumes "Put e c conn w = Inr (r, c1, w1)"
  shows "c1 = c \<or> (\<exists>ch p. conn = Some p \<and> conns c = Some ch \<and> length (chan_buf ch) < chan_cap ch \<and>
           r = None \<and> c1 = c\<lparr>conns := Some (ch\<lparr>chan_buf := chan_buf ch @ [p]\<rparr>)\<rparr>)"
  using assms
  by (auto simp: Put_def Let_def split: option.splits if_splits sum.splits prod.splits close_fn.splits)

lemma Put_full:
  assumes "conns c = Some ch" and "chan_cap ch \<le> length (chan_buf ch)"
    and "close c = Some ConnClose" and "Conn (heap w p) = Some h"
  shows "\<exists>w1. Put e c (Some p) w =
           Inr (conn_Close e (if timeoutType c = IdleTimeoutType then Suc (step w) else step w) h,
                c, w1) \<and> closed w1 = closed w @ [h]"
  using assms by (simp add: Put_def Let_def)

lemma Put_room:
  assumes "conns c = Some ch" and "length (chan_buf ch) < chan_cap ch"
    and "Conn (heap w p) = Some h"
  shows "\<exists>w1. Put e c (Some p) w =
           Inr (None, c\<lparr>conns := Some (ch\<lparr>chan_buf := chan_buf ch @ [p]\<rparr>)\<rparr>, w1) \<and>
           Conn (heap w1 p) = Some h"
  using assms by (simp add: Put_def Let_def)

lemma Close_result:
  "Close e c w = Inr (c1, w1) \<Longrightarrow> c1 = c\<lparr>conns := None, factory := None, close := None\<rparr>"
  by (auto simp: Close_def Let_def split: option.splits sum.splits)

lemma drain_closed:
  "drain e f q w = Inr w1 \<Longrightarrow>
   closed w1 = closed w @ map (\<lambda>p. the (Conn (heap w p))) q \<and> heap w1 = heap w \<and>
   (\<forall>p \<in> set q. Conn (heap w p) \<noteq> None)"
proof (induction q arbitrary: w)
  case Nil
  then show ?case by simp
next
  case (Cons p q)
  from Cons.prems obtain g where f: "f = Some g"
    by (cases f) auto
  with Cons.prems obtain h where h: "Conn (heap w p) = Some h"
    by (cases g; cases "Conn (heap w p)") auto
  with f Cons.prems
  have "drain e f q (w\<lparr>step := Suc (step w), closed := closed w @ [h]\<rparr>) = Inr w1"
    by (simp add: call_close_Some)
  from Cons.IH [OF this] h show ?case by simp
qed

lemma Close_closes_every_stored_entry:
  assumes "Close e c w = Inr (c1, w1)" and "conns c = Some ch"
  shows "closed w1 = closed w @ map (\<lambda>p. the (Conn (heap w p))) (chan_buf ch)"
proof -
  from assms have "drain e (close c) (chan_buf ch) w = Inr w1"
    by (simp add: Close_def Let_def split: sum.splits)
  from drain_closed [OF this] show ?thesis by simp
qed

section \<open>What holds of every pool a client can reach\<close>

lemma pool_inv_set_buf:
  "pool_inv m c \<Longrightarrow> conns c = Some ch \<Longrightarrow> length q \<le> length (chan_buf ch) \<Longrightarrow>
   pool_inv m (set_buf c (chan_cap ch) q)"
  by (simp add: pool_inv_def jitter_ok_def)

lemma pool_inv_Get:
  assumes "pool_inv m c" and "Get e c w = Inr (r, c1, w1)"
  shows "pool_inv m c1"
proof (cases "conns c")
  case None
  with assms show ?thesis by (simp add: Get_def)
next
  case (Some ch)
  with assms(2) have "Get_loop e c (chan_cap ch) (chan_buf ch) w = Inr (r, c1, w1)"
    by (simp add: Get_def)
  from Get_loop_result [OF this] obtain q1
    where "c1 = set_buf c (chan_cap ch) q1" and "length q1 \<le> length (chan_buf ch)"
    by blast
  with assms(1) Some show ?thesis
    by (simp add: pool_inv_set_buf)
qed

lemma pool_inv_Put:
  assumes "pool_inv m c" and "Put e c conn w = Inr (r, c1, w1)"
  shows "pool_inv m c1"
  using Put_result [OF assms(2)] assms(1)
  by (auto simp: pool_inv_def jitter_ok_def)

lemma pool_inv_Close:
  "Close e c w = Inr (c1, w1) \<Longrightarrow> pool_inv m c1"
  by (drule Close_result) (simp add: pool_inv_def)

lemma pool_inv_apply_op:
  "pool_inv m c \<Longrightarrow> apply_op e x c w = Inr (c1, w1) \<Longrightarrow> pool_inv m c1"
  by (cases x)
     (auto split: sum.splits prod.splits dest: pool_inv_Get pool_inv_Put pool_inv_Close)

lemma pool_inv_run:
  "pool_inv m c \<Longrightarrow> run e xs c w = Inr (c1, w1) \<Longrightarrow> pool_inv m c1"
proof (induction xs arbitrary: c w)
  case Nil
  then show ?case by simp
next
  case (Cons x xs)
  from Cons.prems(2) obtain c2 w2
    where a: "apply_op e x c w = Inr (c2, w2)" and r: "run e xs c2 w2 = Inr (c1, w1)"
    by (auto split: sum.splits prod.splits)
  from pool_inv_apply_op [OF Cons.prems(1) a] have "pool_inv m c2" .
  from Cons.IH [OF this r] show ?case .
qed

lemma pool_inv_IdleCount: "pool_inv m c \<Longrightarrow> IdleCount c \<le> m"
  by (simp add: pool_inv_def IdleCount_def split: option.splits)

lemma init_conns_result:
  "init_conns e pool i w = Inr (Inr pool1, w1) \<Longrightarrow> conns pool = Some ch \<Longrightarrow>
   timeoutType pool = IdleTimeoutType \<or> timeoutType pool = FixedTimeoutType \<Longrightarrow>
   length (chan_buf ch) \<le> chan_cap ch \<Longrightarrow>
   \<exists>q. pool1 = pool\<lparr>conns := Some (ch\<lparr>chan_buf := chan_buf ch @ q\<rparr>)\<rparr> \<and> length q = i \<and>
       length (chan_buf ch) + i \<le> chan_cap ch \<and> (0 < i \<longrightarrow> jitter_ok pool)"
proof (induction i arbitrary: pool ch w)
  case 0
  then show ?case by simp
next
  case (Suc i)
  from Suc.prems(1,2) obtain h w2 p w3 where
    cr: "createGrpcIdleConn e pool h w2 = Inr (p, w3)" and
    lt: "length (chan_buf ch) < chan_cap ch" and
    rec: "init_conns e (pool\<lparr>conns := Some (ch\<lparr>chan_buf := chan_buf ch @ [p]\<rparr>)\<rparr>) i w3
            = Inr (Inr pool1, w1)"
    by (auto split: option.splits sum.splits prod.splits if_splits)
  have j: "jitter_ok pool"
    using cr Suc.prems(3) by (rule createGrpcIdleConn_jitter_ok)
  from Suc.IH [OF rec, of "ch\<lparr>chan_buf := chan_buf ch @ [p]\<rparr>"] Suc.prems(3) lt
  obtain q where "pool1 = pool\<lparr>conns := Some (ch\<lparr>chan_buf := chan_buf ch @ p # q\<rparr>)\<rparr>"
    and "length q = i" and "Suc (length (chan_buf ch) + i) \<le> chan_cap ch"
    by auto
  with j show ?case
    by (intro exI [of _ "p # q"]) simp
qed

lemma init_conns_error:
  "init_conns e pool i w = Inr (Inl err, w1) \<Longrightarrow> conns pool = Some ch \<Longrightarrow>
   \<exists>q w2 w3. call_factory e DialNextTarget w2 = Inr (Inl err, w3) \<and>
     closed w1 = closed w3 @ map (\<lambda>p. the (Conn (heap w3 p))) (chan_buf ch @ q) \<and>
     length q < i"
proof (induction i arbitrary: pool ch w)
  case 0
  then show ?case by simp
next
  case (Suc i)
  from Suc.prems obtain f where f: "factory pool = Some f"
    by (auto split: option.splits)
  then have fd: "f = DialNextTarget" by (cases f) simp
  from Suc.prems f obtain r w2 where cf: "call_factory e f w = Inr (r, w2)"
    by (auto split: sum.splits prod.splits)
  show ?case
  proof (cases r)
    case (Inl err')
    with Suc.prems f cf obtain c1 where cl: "Close e pool w2 = Inr (c1, w1)" and e: "err' = err"
      by (auto split: sum.splits prod.splits)
    from Close_closes_every_stored_entry [OF cl Suc.prems(2)] cf Inl e fd
    show ?thesis
      by (intro exI [of _ "[]"] exI [of _ w] exI [of _ w2]) simp
  next
    case (Inr h)
    with Suc.prems f cf obtain p w3 where
      lt: "length (chan_buf ch) < chan_cap ch" and
      rec: "init_conns e (pool\<lparr>conns := Some (ch\<lparr>chan_buf := chan_buf ch @ [p]\<rparr>)\<rparr>) i w3
              = Inr (Inl err, w1)"
      by (auto split: sum.splits prod.splits if_splits)
    from Suc.IH [OF rec, of "ch\<lparr>chan_buf := chan_buf ch @ [p]\<rparr>"]
    obtain q w4 w5 where "call_factory e DialNextTarget w4 = Inr (Inl err, w5)"
      and "closed w1 = closed w5 @ map (\<lambda>p. the (Conn (heap w5 p))) (chan_buf ch @ p # q)"
      and "length q < i"
      by auto
    then show ?thesis
      by (intro exI [of _ "p # q"] exI [of _ w4] exI [of _ w5]) simp
  qed
qed

lemma NewGRPCPool_result:
  assumes "NewGRPCPool e w = Inr (Inr pool, w1)"
  shows "validate (opts w) = None"
    and "pool_inv (nat (MaxCap (opts w))) pool"
    and "int (IdleCount pool) = InitCap (opts w)"
    and "pool_IdleTimeout pool = IdleTimeout (opts w)"
    and "timeoutType pool = TimeoutType (opts w)"
    and "conns pool \<noteq> None"
proof -
  let ?p0 = "\<lparr>pool_IdleTimeout = IdleTimeout (opts w),
               timeoutType = TimeoutType (opts w),
               conns = Some \<lparr>chan_buf = [], chan_cap = nat (MaxCap (opts w))\<rparr>,
               factory = Some DialNextTarget,
               close = Some ConnClose\<rparr>"
  from assms show v: "validate (opts w) = None"
    by (auto simp: NewGRPCPool_def split: option.splits)
  with assms have i: "init_conns e ?p0 (nat (InitCap (opts w))) (w\<lparr>opts := update (opts w)\<rparr>)
      = Inr (Inr pool, w1)"
    by (simp add: NewGRPCPool_def Let_def update_def)
  from v have ty: "timeoutType ?p0 = IdleTimeoutType \<or> timeoutType ?p0 = FixedTimeoutType"
    and pos: "0 < InitCap (opts w)"
    by (auto simp: validate_def split: if_splits)
  from init_conns_result [OF i _ ty _, of "\<lparr>chan_buf = [], chan_cap = nat (MaxCap (opts w))\<rparr>"]
  obtain q where p: "pool = ?p0\<lparr>conns := Some \<lparr>chan_buf = q, chan_cap = nat (MaxCap (opts w))\<rparr>\<rparr>"
    and l: "length q = nat (InitCap (opts w))" and le: "nat (InitCap (opts w)) \<le> nat (MaxCap (opts w))"
    and j: "0 < nat (InitCap (opts w)) \<longrightarrow> jitter_ok ?p0"
    by auto
  from p l le j pos show "pool_inv (nat (MaxCap (opts w))) pool"
    by (simp add: pool_inv_def jitter_ok_def)
  from p l pos show "int (IdleCount pool) = InitCap (opts w)"
    by (simp add: IdleCount_def)
  from p show "pool_IdleTimeout pool = IdleTimeout (opts w)" by simp
  from p show "timeoutType pool = TimeoutType (opts w)" by simp
  from p show "conns pool \<noteq> None" by simp
qed

lemma NewGRPCPool_error:
  assumes "NewGRPCPool e w = Inr (Inl err, w1)"
  shows "validate (opts w) = Some err \<and> err = errInvalid \<and> w1 = w \<or>
         validate (opts w) = None \<and>
         (\<exists>q w2 w3. call_factory e DialNextTarget w2 = Inr (Inl err, w3) \<and>
            closed w1 = closed w3 @ map (\<lambda>p. the (Conn (heap w3 p))) q \<and>
            int (length q) < InitCap (opts w))"
proof (cases "validate (opts w)")
  case (Some err')
  with assms have "err' = err" and "w1 = w"
    by (simp_all add: NewGRPCPool_def)
  moreover from Some have "err' = errInvalid"
    by (simp add: validate_def split: if_splits)
  ultimately show ?thesis using Some by simp
next
  case None
  let ?p0 = "\<lparr>pool_IdleTimeout = IdleTimeout (opts w),
               timeoutType = TimeoutType (opts w),
               conns = Some \<lparr>chan_buf = [], chan_cap = nat (MaxCap (opts w))\<rparr>,
               factory = Some DialNextTarget,
               close = Some ConnClose\<rparr>"
  from None assms
  have i: "init_conns e ?p0 (nat (InitCap (opts w))) (w\<lparr>opts := update (opts w)\<rparr>)
      = Inr (Inl err, w1)"
    by (simp add: NewGRPCPool_def Let_def update_def)
  from init_conns_error [OF i, of "\<lparr>chan_buf = [], chan_cap = nat (MaxCap (opts w))\<rparr>"]
  obtain q w2 w3 where "call_factory e DialNextTarget w2 = Inr (Inl err, w3)"
    and "closed w1 = closed w3 @ map (\<lambda>p. the (Conn (heap w3 p))) q"
    and "length q < nat (InitCap (opts w))"
    by auto
  with None show ?thesis
    by (intro disjI2 conjI exI [of _ q] exI [of _ w2] exI [of _ w3]) simp_all
qed

lemma reachable_inv:
  assumes "NewGRPCPool e w0 = Inr (Inr pool, w1)" and "run e xs pool w1 = Inr (c, w)"
  shows "pool_inv (nat (MaxCap (opts w0))) c" and "0 < MaxCap (opts w0)"
proof -
  from NewGRPCPool_result(2) [OF assms(1)] assms(2)
  show "pool_inv (nat (MaxCap (opts w0))) c" by (rule pool_inv_run)
  from NewGRPCPool_result(1) [OF assms(1)] show "0 < MaxCap (opts w0)"
    by (simp add: validate_def split: if_splits)
qed

section \<open>The concrete pool, evaluated\<close>

lemma ex_pool_simps:
  "conns (ex_pool d ty q n) = Some \<lparr>chan_buf = q, chan_cap = n\<rparr>"
  "pool_IdleTimeout (ex_pool d ty q n) = d"
  "timeoutType (ex_pool d ty q n) = ty"
  "set_buf (ex_pool d ty q0 n) n q = ex_pool d ty q n"
  by (simp_all add: ex_pool_def set_buf_def)

lemma ex_NewGRPCPool:
  "NewGRPCPool ex_env (ex_world ex_opts) =
     Inr (Inr (ex_pool (60 * Second) IdleTimeoutType [0] 2), ex_world1)"
  by (simp add: eval_defs)

lemma ex_run_Nil:
  "run ex_env [] (ex_pool (60 * Second) IdleTimeoutType [0] 2) ex_world1 =
     Inr (ex_pool (60 * Second) IdleTimeoutType [0] 2, ex_world1)"
  by simp

lemma ex_run_Put:
  "run ex_env [OpPut (Some 0)] (ex_pool (60 * Second) IdleTimeoutType [0] 2) ex_world1 =
     Inr (ex_pool (60 * Second) IdleTimeoutType [0, 0] 2,
          ex_world1\<lparr>step := 4, heap := (heap ex_world1)(0 := \<lparr>Conn = Some 1, t = 3 * Second\<rparr>)\<rparr>)"
  by (simp add: eval_defs)

lemma ex_run_Get:
  "run ex_env [OpGet] (ex_pool (60 * Second) IdleTimeoutType [0] 2) ex_world1 =
     Inr (ex_pool (60 * Second) IdleTimeoutType [] 2, ex_world1\<lparr>step := 4\<rparr>)"
  by (simp add: eval_defs)

lemma ex_run_Other:
  "run ex_env [Other (\<lambda>w. w\<lparr>step := 1000\<rparr>)] (ex_pool (60 * Second) IdleTimeoutType [0] 2) ex_world1 =
     Inr (ex_pool (60 * Second) IdleTimeoutType [0] 2, ex_world1\<lparr>step := 1000\<rparr>)"
  by (simp add: eval_defs)

lemma ex_run_clear_Conn:
  "run ex_env [Other (\<lambda>w. w\<lparr>heap := (heap w)(0 := (heap w 0)\<lparr>Conn := None\<rparr>)\<rparr>)]
       (ex_pool (60 * Second) IdleTimeoutType [0] 2) ex_world1 =
     Inr (ex_pool (60 * Second) IdleTimeoutType [0] 2, ex_world1_nil)"
  by (simp add: ex_world1_nil_def ex_world1_def)

lemma ex_run_Get_no_targets:
  "run ex_env [OpGet, Other (\<lambda>w. w\<lparr>opts := (opts w)\<lparr>targets := Some (AtSlice [])\<rparr>\<rparr>)]
       (ex_pool (60 * Second) IdleTimeoutType [0] 2) ex_world1 =
     Inr (ex_pool (60 * Second) IdleTimeoutType [] 2,
          ex_world1\<lparr>step := 4, opts := (opts ex_world1)\<lparr>targets := Some (AtSlice [])\<rparr>\<rparr>)"
  by (simp add: eval_defs)

section \<open>Shutdown\<close>

text \<open>
  C1. After \<^verbatim>\<open>Close\<close> has returned, \<^verbatim>\<open>Get\<close> fails with \<open>errClosed\<close>, a second
  \<^verbatim>\<open>Close\<close> returns and changes nothing, and \<^verbatim>\<open>IdleCount\<close> is zero. \<^verbatim>\<open>Put\<close> of a wrapper
  that holds a connection does not close it and does not return: \<^verbatim>\<open>Close\<close> has set the
  field \<open>close\<close> to nil, and the branch of \<^verbatim>\<open>Put\<close> for a closed pool calls that field.
\<close>

theorem closed_pool_Get_Close_Put:
  assumes "Close e c w = Inr (c1, w1)"
  shows "Get e c1 w2 = Inr (Inl errClosed, c1, w2) \<and>
         Close e c1 w2 = Inr (c1, w2) \<and>
         IdleCount c1 = 0 \<and>
         Put e c1 None w2 = Inr (Some errRejected, c1, w2) \<and>
         (Conn (heap w2 p) \<noteq> None \<longrightarrow> Put e c1 (Some p) w2 = Inl NilFuncCall)"
proof -
  from Close_result [OF assms] have c1: "c1 = c\<lparr>conns := None, factory := None, close := None\<rparr>" .
  then have "conns c1 = None" and "close c1 = None" and "factory c1 = None"
    by simp_all
  then show ?thesis
    by (auto simp: Get_def Close_def IdleCount_def Put_def Let_def)
qed

text \<open>
  The pool built from \<open>ex_opts\<close>, closed, and then handed its own entry back.
\<close>

theorem closed_pool_Get_Close_Put_witness:
  "Close ex_env (ex_pool (60 * Second) IdleTimeoutType [0] 2) ex_world1 =
     Inr (ex_pool (60 * Second) IdleTimeoutType [0] 2\<lparr>conns := None, factory := None, close := None\<rparr>,
          ex_world1\<lparr>step := 4, closed := [1]\<rparr>) \<and>
   Conn (heap (ex_world1\<lparr>step := 4, closed := [1]\<rparr>) 0) \<noteq> None \<and>
   Put ex_env (ex_pool (60 * Second) IdleTimeoutType [0] 2\<lparr>conns := None, factory := None, close := None\<rparr>)
     (Some 0) (ex_world1\<lparr>step := 4, closed := [1]\<rparr>) = Inl NilFuncCall \<and>
   Get ex_env (ex_pool (60 * Second) IdleTimeoutType [0] 2\<lparr>conns := None, factory := None, close := None\<rparr>)
     (ex_world1\<lparr>step := 4, closed := [1]\<rparr>) =
     Inr (Inl errClosed,
          ex_pool (60 * Second) IdleTimeoutType [0] 2\<lparr>conns := None, factory := None, close := None\<rparr>,
          ex_world1\<lparr>step := 4, closed := [1]\<rparr>) \<and>
   Close ex_env (ex_pool (60 * Second) IdleTimeoutType [0] 2\<lparr>conns := None, factory := None, close := None\<rparr>)
     (ex_world1\<lparr>step := 4, closed := [1]\<rparr>) =
     Inr (ex_pool (60 * Second) IdleTimeoutType [0] 2\<lparr>conns := None, factory := None, close := None\<rparr>,
          ex_world1\<lparr>step := 4, closed := [1]\<rparr>)"
proof -
  have cl: "Close ex_env (ex_pool (60 * Second) IdleTimeoutType [0] 2) ex_world1 =
     Inr (ex_pool (60 * Second) IdleTimeoutType [0] 2\<lparr>conns := None, factory := None, close := None\<rparr>,
          ex_world1\<lparr>step := 4, closed := [1]\<rparr>)"
    by (simp add: eval_defs)
  have h: "Conn (heap (ex_world1\<lparr>step := 4, closed := [1]\<rparr>) 0) \<noteq> None"
    by (simp add: ex_world1_def)
  from closed_pool_Get_Close_Put [OF cl, of "ex_world1\<lparr>step := 4, closed := [1]\<rparr>" 0] h
  show ?thesis
    using cl by simp
qed

section \<open>Replacing the targets\<close>

text \<open>
  C2. No code of the package makes the channel \<open>input\<close>: it is nil in \<^verbatim>\<open>NewOptions\<close> and in
  every \<^verbatim>\<open>Options\<close> literal a client writes, and \<^verbatim>\<open>NewGRPCPool\<close> leaves it so. On the pool
  built from \<open>ex_opts\<close>, with the one target \<open>A\<close>, sending the replacement \<open>[B]\<close> blocks for ever,
  the listener applies nothing, the targets stay \<open>[A]\<close>, and the next \<^verbatim>\<open>Get\<close> that finds the
  store empty dials \<open>A\<close>.
\<close>

theorem update_channel_is_nil:
  "input NewOptions = None \<and>
   NewGRPCPool ex_env (ex_world ex_opts) =
     Inr (Inr (ex_pool (60 * Second) IdleTimeoutType [0] 2), ex_world1) \<and>
   input (opts ex_world1) = None \<and>
   send_Input (opts ex_world1) (Some [''B'']) = Inl BlocksForever \<and>
   listener (opts ex_world1) = opts ex_world1 \<and>
   deref_targets (opts ex_world1) = Some [''A''] \<and>
   run ex_env [OpGet, OpGet] (ex_pool (60 * Second) IdleTimeoutType [0] 2) ex_world1 =
     Inr (ex_pool (60 * Second) IdleTimeoutType [] 2,
          ex_world1\<lparr>step := 7,
            heap := (heap ex_world1)(1 := \<lparr>Conn = Some 5, t = 6 * Second\<rparr>),
            next_ptr := 2, dialed := [''A'', ''A'']\<rparr>)"
  by (simp add: listener_def send_Input_def eval_defs)

section \<open>Configuration validation\<close>

text \<open>
  C3 (as amended). \<^verbatim>\<open>validate\<close> returns the error \<open>errInvalid\<close> exactly when
  \<open>InitTargets\<close> is the nil slice, or \<open>InitCap \<le> 0\<close>, or \<open>MaxCap \<le> 0\<close>, or
  \<open>InitCap > MaxCap\<close>, or the eviction policy is neither of the two recognised values, or one
  of \<open>DialTimeout\<close>, \<open>ReadTimeout\<close>, \<open>WriteTimeout\<close> equals zero; otherwise it returns no
  error.
\<close>

theorem validate_rejects_iff:
  "(validate opt = Some errInvalid \<longleftrightarrow>
      InitTargets opt = None \<or> InitCap opt \<le> 0 \<or> MaxCap opt \<le> 0 \<or> MaxCap opt < InitCap opt \<or>
      (TimeoutType opt \<noteq> IdleTimeoutType \<and> TimeoutType opt \<noteq> FixedTimeoutType) \<or>
      DialTimeout opt = 0 \<or> ReadTimeout opt = 0 \<or> WriteTimeout opt = 0) \<and>
   (validate opt \<noteq> Some errInvalid \<longrightarrow> validate opt = None)"
  by (simp add: validate_def)

text \<open>
  The options \<open>ex_opts\<close> pass; the defaults of \<^verbatim>\<open>NewOptions\<close>, which name no target, do
  not.
\<close>

theorem validate_rejects_iff_witness:
  "validate ex_opts = None \<and> validate NewOptions = Some errInvalid"
  using validate_rejects_iff [of ex_opts] validate_rejects_iff [of NewOptions]
  by (simp add: ex_defs)

text \<open>
  C3 as the specification states it fails: an empty target list that is not nil, and a
  negative dial timeout, both pass validation.
\<close>

theorem validate_accepts_empty_targets_and_negative_timeout:
  "validate (ex_opts\<lparr>InitTargets := Some []\<rparr>) = None \<and>
   validate (ex_opts\<lparr>DialTimeout := - 5 * Second\<rparr>) = None"
  by (simp add: validate_def ex_defs)

section \<open>A timeout of zero\<close>

text \<open>
  C4. A configuration that passes validation with \<open>IdleTimeout = 0\<close> and the policy
  \<open>FixedTimeoutType\<close> cannot build a pool: as soon as the first dial succeeds,
  \<^verbatim>\<open>createGrpcIdleConn\<close> calls \<^verbatim>\<open>rand.Int63n(0)\<close>, which panics. \<^verbatim>\<open>Get\<close> guards its use of
  the timeout with \<open>timeout > 0\<close>; \<^verbatim>\<open>createGrpcIdleConn\<close> has no such guard.
\<close>

theorem NewGRPCPool_faults_Fixed_IdleTimeout_0:
  assumes "validate (opts w) = None" and "TimeoutType (opts w) = FixedTimeoutType"
    and "IdleTimeout (opts w) = 0"
    and "call_factory e DialNextTarget (w\<lparr>opts := update (opts w)\<rparr>) = Inr (Inr h, w1)"
  shows "NewGRPCPool e w = Inl Int63nArg"
proof -
  from assms(1) have "0 < InitCap (opts w)"
    by (simp add: validate_def split: if_splits)
  then obtain i where i: "nat (InitCap (opts w)) = Suc i"
    by (cases "nat (InitCap (opts w))") simp_all
  let ?p0 = "\<lparr>pool_IdleTimeout = IdleTimeout (opts w),
               timeoutType = TimeoutType (opts w),
               conns = Some \<lparr>chan_buf = [], chan_cap = nat (MaxCap (opts w))\<rparr>,
               factory = Some DialNextTarget,
               close = Some ConnClose\<rparr>"
  have "createGrpcIdleConn e ?p0 h w1 = Inl Int63nArg"
    using assms(2,3) by (intro createGrpcIdleConn_Fixed_fault) (simp_all add: Milliseconds_def quot_def)
  with assms(1,4) i show ?thesis
    by (simp add: NewGRPCPool_def Let_def update_def)
qed

text \<open>
  The options \<open>ex_opts\<close> with the fixed policy and the timeout disabled: the first dial
  succeeds with handle 1, and construction faults.
\<close>

theorem NewGRPCPool_faults_Fixed_IdleTimeout_0_witness:
  "validate (opts (ex_world (ex_opts\<lparr>TimeoutType := FixedTimeoutType, IdleTimeout := 0\<rparr>))) = None \<and>
   TimeoutType (opts (ex_world (ex_opts\<lparr>TimeoutType := FixedTimeoutType, IdleTimeout := 0\<rparr>)))
     = FixedTimeoutType \<and>
   IdleTimeout (opts (ex_world (ex_opts\<lparr>TimeoutType := FixedTimeoutType, IdleTimeout := 0\<rparr>))) = 0 \<and>
   call_factory ex_env DialNextTarget
       ((ex_world (ex_opts\<lparr>TimeoutType := FixedTimeoutType, IdleTimeout := 0\<rparr>))
          \<lparr>opts := update (opts (ex_world (ex_opts\<lparr>TimeoutType := FixedTimeoutType, IdleTimeout := 0\<rparr>)))\<rparr>) =
     Inr (Inr 1, (ex_world (ex_opts\<lparr>TimeoutType := FixedTimeoutType, IdleTimeout := 0\<rparr>))
          \<lparr>opts := update (opts (ex_world (ex_opts\<lparr>TimeoutType := FixedTimeoutType, IdleTimeout := 0\<rparr>))),
            step := 2, dialed := [''A'']\<rparr>) \<and>
   NewGRPCPool ex_env (ex_world (ex_opts\<lparr>TimeoutType := FixedTimeoutType, IdleTimeout := 0\<rparr>))
     = Inl Int63nArg"
proof -
  let ?w = "ex_world (ex_opts\<lparr>TimeoutType := FixedTimeoutType, IdleTimeout := 0\<rparr>)"
  have a: "validate (opts ?w) = None"
    by (simp add: validate_def ex_defs)
  have b: "TimeoutType (opts ?w) = FixedTimeoutType"
    by (simp add: ex_defs)
  have c: "IdleTimeout (opts ?w) = 0"
    by (simp add: ex_defs)
  have d: "call_factory ex_env DialNextTarget (?w\<lparr>opts := update (opts ?w)\<rparr>) =
      Inr (Inr 1, ?w\<lparr>opts := update (opts ?w), step := 2, dialed := [''A'']\<rparr>)"
    by (simp add: nextTarget_def deref_targets_def update_def slice_def ex_defs)
  note r = NewGRPCPool_faults_Fixed_IdleTimeout_0 [OF a b c d]
  show ?thesis
    by (intro conjI a b c d r)
qed

section \<open>The timestamp of a new entry\<close>

text \<open>
  C5 (as amended). Under \<open>IdleTimeoutType\<close> a new entry's timestamp is the creation instant.
  Under \<open>FixedTimeoutType\<close> with \<open>IdleTimeout\<close> of at least two milliseconds it is the
  creation instant moved back by a whole number of milliseconds, drawn uniformly from the
  whole numbers below half the timeout in milliseconds (rounded down): the draw of
  \<^verbatim>\<open>rand.Int63n\<close>, a draw \<open>r\<close> reduced modulo that bound \<open>n\<close>. The offset is at least zero and
  less than half the timeout; every whole millisecond below the bound is drawn by the draw
  of that number; and among the draws below any multiple \<open>m * n\<close> of the bound, each whole
  millisecond below the bound is the offset of exactly \<open>m\<close>.
\<close>

theorem createGrpcIdleConn_timestamp:
  "(timeoutType c = IdleTimeoutType \<longrightarrow>
      createGrpcIdleConn e c conn w =
        Inr (next_ptr w,
             w\<lparr>step := Suc (step w),
               heap := (heap w)(next_ptr w := \<lparr>Conn = Some conn, t = time_Now e (step w)\<rparr>),
               next_ptr := Suc (next_ptr w)\<rparr>)) \<and>
   (timeoutType c = FixedTimeoutType \<and> 2 * Millisecond \<le> pool_IdleTimeout c \<longrightarrow>
      (let n = nat (pool_IdleTimeout c div (2 * Millisecond));
           r = rand_Int e (Suc (step w));
           off = int (r mod n) * Millisecond
       in createGrpcIdleConn e c conn w =
            Inr (next_ptr w,
                 w\<lparr>step := Suc (Suc (step w)),
                   heap := (heap w)(next_ptr w :=
                     \<lparr>Conn = Some conn, t = time_Now e (step w) - off\<rparr>),
                   next_ptr := Suc (next_ptr w)\<rparr>) \<and>
          0 \<le> off \<and> 2 * off < pool_IdleTimeout c \<and>
          (r < n \<longrightarrow> off = int r * Millisecond) \<and>
          (\<forall>k m. k < n \<longrightarrow>
             card {r'. r' < m * n \<and> int (r' mod n) * Millisecond = int k * Millisecond} = m)))"
proof (intro conjI impI)
  assume "timeoutType c = IdleTimeoutType"
  then show "createGrpcIdleConn e c conn w =
        Inr (next_ptr w,
             w\<lparr>step := Suc (step w),
               heap := (heap w)(next_ptr w := \<lparr>Conn = Some conn, t = time_Now e (step w)\<rparr>),
               next_ptr := Suc (next_ptr w)\<rparr>)"
    by (rule createGrpcIdleConn_Idle)
next
  assume a: "timeoutType c = FixedTimeoutType \<and> 2 * Millisecond \<le> pool_IdleTimeout c"
  let ?n = "nat (pool_IdleTimeout c div (2 * Millisecond))"
  from a have d: "0 \<le> pool_IdleTimeout c"
    by (simp add: Millisecond_def)
  have h: "quot (Milliseconds (pool_IdleTimeout c)) 2 = pool_IdleTimeout c div (2 * Millisecond)"
    using d by (rule half_Milliseconds)
  from a have pos: "0 < quot (Milliseconds (pool_IdleTimeout c)) 2"
    by (simp add: half_Milliseconds_pos_iff)
  with h have n: "0 < ?n" by simp
  have u: "card {r'. r' < m * ?n \<and> int (r' mod ?n) * Millisecond = int k * Millisecond} = m"
    if "k < ?n" for k m
  proof -
    have "{r'. r' < m * ?n \<and> int (r' mod ?n) * Millisecond = int k * Millisecond} =
        {r'. r' < m * ?n \<and> r' mod ?n = k}"
      by (simp add: Millisecond_def)
    with residue_class_card [OF n that, of m] show ?thesis by simp
  qed
  have "createGrpcIdleConn e c conn w =
          Inr (next_ptr w,
               w\<lparr>step := Suc (Suc (step w)),
                 heap := (heap w)(next_ptr w :=
                   \<lparr>Conn = Some conn,
                     t = time_Now e (step w) - int (rand_Int e (Suc (step w)) mod ?n) * Millisecond\<rparr>),
                 next_ptr := Suc (next_ptr w)\<rparr>) \<and>
        0 \<le> int (rand_Int e (Suc (step w)) mod ?n) * Millisecond \<and>
        2 * (int (rand_Int e (Suc (step w)) mod ?n) * Millisecond) < pool_IdleTimeout c \<and>
        (rand_Int e (Suc (step w)) < ?n \<longrightarrow>
           int (rand_Int e (Suc (step w)) mod ?n) * Millisecond =
           int (rand_Int e (Suc (step w))) * Millisecond)"
    using a createGrpcIdleConn_Fixed [of c e conn w, OF _ pos] jitter_window [of "pool_IdleTimeout c"]
    by (simp add: h)
  with u show "let n = nat (pool_IdleTimeout c div (2 * Millisecond));
           r = rand_Int e (Suc (step w));
           off = int (r mod n) * Millisecond
       in createGrpcIdleConn e c conn w =
            Inr (next_ptr w,
                 w\<lparr>step := Suc (Suc (step w)),
                   heap := (heap w)(next_ptr w :=
                     \<lparr>Conn = Some conn, t = time_Now e (step w) - off\<rparr>),
                   next_ptr := Suc (next_ptr w)\<rparr>) \<and>
          0 \<le> off \<and> 2 * off < pool_IdleTimeout c \<and>
          (r < n \<longrightarrow> off = int r * Millisecond) \<and>
          (\<forall>k m. k < n \<longrightarrow>
             card {r'. r' < m * n \<and> int (r' mod n) * Millisecond = int k * Millisecond} = m)"
    unfolding Let_def by blast
qed

text \<open>
  A timeout of a minute: created at second 5 with the draw 6, the entry is stamped six
  milliseconds earlier; under the idle policy it is stamped with the creation instant.
\<close>

theorem createGrpcIdleConn_timestamp_witness:
  "timeoutType (ex_pool (60 * Second) FixedTimeoutType [] 2) = FixedTimeoutType \<and>
   2 * Millisecond \<le> pool_IdleTimeout (ex_pool (60 * Second) FixedTimeoutType [] 2) \<and>
   createGrpcIdleConn ex_env (ex_pool (60 * Second) FixedTimeoutType [] 2) 7
       ((ex_world ex_opts)\<lparr>step := 5\<rparr>) =
     Inr (0, (ex_world ex_opts)\<lparr>step := 7,
            heap := (heap (ex_world ex_opts))(0 := \<lparr>Conn = Some 7, t = 5 * Second - 6 * Millisecond\<rparr>),
            next_ptr := 1\<rparr>) \<and>
   timeoutType (ex_pool (60 * Second) IdleTimeoutType [] 2) = IdleTimeoutType \<and>
   createGrpcIdleConn ex_env (ex_pool (60 * Second) IdleTimeoutType [] 2) 7 (ex_world ex_opts) =
     Inr (0, (ex_world ex_opts)\<lparr>step := 1,
            heap := (heap (ex_world ex_opts))(0 := \<lparr>Conn = Some 7, t = 0\<rparr>),
            next_ptr := 1\<rparr>)"
  using createGrpcIdleConn_timestamp [of "ex_pool (60 * Second) FixedTimeoutType [] 2" ex_env 7
      "(ex_world ex_opts)\<lparr>step := 5\<rparr>"]
    createGrpcIdleConn_timestamp [of "ex_pool (60 * Second) IdleTimeoutType [] 2" ex_env 7
      "ex_world ex_opts"]
  by (simp add: ex_pool_def ex_defs Let_def)

text \<open>
  C5 as the specification states it fails, with no fault involved: with the fixed policy
  and a timeout of three milliseconds, one millisecond lies in the window
  \<open>[0, IdleTimeout/2)\<close>, yet no surroundings make \<^verbatim>\<open>createGrpcIdleConn\<close> stamp an entry one
  millisecond back. The bound of the draw is \<open>3 / 2 = 1\<close>, so the offset is always zero:
  with the draw 1, the entry created at instant 0 is stamped 0.
\<close>

theorem createGrpcIdleConn_3ms_never_1ms_back:
  "0 \<le> 1 * Millisecond \<and> 2 * (1 * Millisecond) < 3 * Millisecond \<and>
   \<not> (\<exists>e w p w1.
        createGrpcIdleConn e (ex_pool (3 * Millisecond) FixedTimeoutType [] 2) 7 w = Inr (p, w1) \<and>
        t (heap w1 p) = time_Now e (step w) - 1 * Millisecond) \<and>
   rand_Int ex_env (Suc (step (ex_world ex_opts))) = 1 \<and>
   createGrpcIdleConn ex_env (ex_pool (3 * Millisecond) FixedTimeoutType [] 2) 7 (ex_world ex_opts) =
     Inr (0, (ex_world ex_opts)\<lparr>step := 2,
            heap := (heap (ex_world ex_opts))(0 := \<lparr>Conn = Some 7, t = 0\<rparr>),
            next_ptr := 1\<rparr>)"
  by (simp add: createGrpcIdleConn_def Int63n_def alloc_def Milliseconds_def quot_def
      ex_pool_def ex_defs)

section \<open>Expiry on acquisition\<close>

text \<open>
  C6 (as amended). In every state of a pool built by \<^verbatim>\<open>NewGRPCPool\<close> in which it is open
  and its timeout is positive: when the wrapper at the head of the store holds no
  connection, \<^verbatim>\<open>Get\<close> takes it from the store and fails with \<open>errClosed\<close>, closing and
  dialing nothing; when it holds a connection, \<^verbatim>\<open>Get\<close> returns it if its age \<open>now - t\<close> is
  at most the timeout, and if the age is greater closes its connection and goes on exactly
  as \<^verbatim>\<open>Get\<close> on the rest of the store; on an empty store \<^verbatim>\<open>Get\<close> dials, and returns a new
  wrapper around the dialed connection, or the error of the dial, leaving the store empty.
\<close>

theorem Get_expiry_check:
  assumes "NewGRPCPool e w0 = Inr (Inr pool, w1)" and "run e xs pool w1 = Inr (c, w)"
    and "conns c = Some ch" and "0 < pool_IdleTimeout c"
  shows
    "(chan_buf ch = p # q \<and> Conn (heap w p) = None \<longrightarrow>
        Get e c w = Inr (Inl errClosed, set_buf c (chan_cap ch) q, w)) \<and>
     (chan_buf ch = p # q \<and> Conn (heap w p) = Some h \<and>
        time_Now e (step w) - t (heap w p) \<le> pool_IdleTimeout c \<longrightarrow>
        Get e c w = Inr (Inr p, set_buf c (chan_cap ch) q, w\<lparr>step := Suc (step w)\<rparr>)) \<and>
     (chan_buf ch = p # q \<and> Conn (heap w p) = Some h \<and>
        pool_IdleTimeout c < time_Now e (step w) - t (heap w p) \<longrightarrow>
        Get e c w = Get e (set_buf c (chan_cap ch) q)
                      (w\<lparr>step := Suc (Suc (step w)), closed := closed w @ [h]\<rparr>)) \<and>
     (chan_buf ch = [] \<and> call_factory e DialNextTarget w = Inr (Inr h, w2) \<longrightarrow>
        (\<exists>w3. Get e c w = Inr (Inr (next_ptr w2), c, w3) \<and>
              Conn (heap w3 (next_ptr w2)) = Some h)) \<and>
     (chan_buf ch = [] \<and> call_factory e DialNextTarget w = Inr (Inl err, w2) \<longrightarrow>
        Get e c w = Inr (Inl err, c, w2))"
proof -
  from reachable_inv(1) [OF assms(1,2)] assms(3)
  have f: "factory c = Some DialNextTarget" and cl: "close c = Some ConnClose"
    and j: "jitter_ok c"
    by (simp_all add: pool_inv_def)
  show ?thesis
  proof (intro conjI impI)
    assume "chan_buf ch = p # q \<and> Conn (heap w p) = None"
    with assms(3)
    show "Get e c w = Inr (Inl errClosed, set_buf c (chan_cap ch) q, w)"
      by (simp add: Get_head_nil)
  next
    assume "chan_buf ch = p # q \<and> Conn (heap w p) = Some h \<and>
        time_Now e (step w) - t (heap w p) \<le> pool_IdleTimeout c"
    with assms(3,4)
    show "Get e c w = Inr (Inr p, set_buf c (chan_cap ch) q, w\<lparr>step := Suc (step w)\<rparr>)"
      by (simp add: Get_head_fresh)
  next
    assume "chan_buf ch = p # q \<and> Conn (heap w p) = Some h \<and>
        pool_IdleTimeout c < time_Now e (step w) - t (heap w p)"
    with assms(3,4) cl
    show "Get e c w = Get e (set_buf c (chan_cap ch) q)
                      (w\<lparr>step := Suc (Suc (step w)), closed := closed w @ [h]\<rparr>)"
      by (intro Get_head_expired) blast+
  next
    assume "chan_buf ch = [] \<and> call_factory e DialNextTarget w = Inr (Inr h, w2)"
    with assms(3) f j
    show "\<exists>w3. Get e c w = Inr (Inr (next_ptr w2), c, w3) \<and>
              Conn (heap w3 (next_ptr w2)) = Some h"
      by (intro Get_empty_dial_ok) blast+
  next
    assume "chan_buf ch = [] \<and> call_factory e DialNextTarget w = Inr (Inl err, w2)"
    with assms(3) f
    show "Get e c w = Inr (Inl err, c, w2)"
      by (intro Get_empty_dial_error) blast+
  qed
qed

text \<open>
  On the pool built from \<open>ex_opts\<close>: once the client has set the field \<open>Conn\<close> of the stored
  wrapper to nil, \<^verbatim>\<open>Get\<close> fails with \<open>errClosed\<close>; an entry one second old is returned; 998
  seconds old it is closed and \<^verbatim>\<open>Get\<close> goes on with the empty store; on the empty store
  \<^verbatim>\<open>Get\<close> returns a new wrapper around the dialed connection 5; with no target left it
  returns \<open>errTargets\<close>.
\<close>

theorem Get_expiry_check_witness:
  "NewGRPCPool ex_env (ex_world ex_opts) =
     Inr (Inr (ex_pool (60 * Second) IdleTimeoutType [0] 2), ex_world1) \<and>
   0 < pool_IdleTimeout (ex_pool (60 * Second) IdleTimeoutType [0] 2) \<and>
   run ex_env [Other (\<lambda>w. w\<lparr>heap := (heap w)(0 := (heap w 0)\<lparr>Conn := None\<rparr>)\<rparr>)]
       (ex_pool (60 * Second) IdleTimeoutType [0] 2) ex_world1 =
     Inr (ex_pool (60 * Second) IdleTimeoutType [0] 2, ex_world1_nil) \<and>
   Conn (heap ex_world1_nil 0) = None \<and>
   Get ex_env (ex_pool (60 * Second) IdleTimeoutType [0] 2) ex_world1_nil =
     Inr (Inl errClosed, ex_pool (60 * Second) IdleTimeoutType [] 2, ex_world1_nil) \<and>
   Conn (heap ex_world1 0) = Some 1 \<and>
   time_Now ex_env (step ex_world1) - t (heap ex_world1 0) = 1 * Second \<and>
   Get ex_env (ex_pool (60 * Second) IdleTimeoutType [0] 2) ex_world1 =
     Inr (Inr 0, ex_pool (60 * Second) IdleTimeoutType [] 2, ex_world1\<lparr>step := 4\<rparr>) \<and>
   run ex_env [Other (\<lambda>w. w\<lparr>step := 1000\<rparr>)] (ex_pool (60 * Second) IdleTimeoutType [0] 2) ex_world1 =
     Inr (ex_pool (60 * Second) IdleTimeoutType [0] 2, ex_world1\<lparr>step := 1000\<rparr>) \<and>
   time_Now ex_env (step (ex_world1\<lparr>step := 1000\<rparr>)) - t (heap (ex_world1\<lparr>step := 1000\<rparr>) 0)
     = 998 * Second \<and>
   Get ex_env (ex_pool (60 * Second) IdleTimeoutType [0] 2) (ex_world1\<lparr>step := 1000\<rparr>) =
     Get ex_env (ex_pool (60 * Second) IdleTimeoutType [] 2)
       (ex_world1\<lparr>step := 1002, closed := [1]\<rparr>) \<and>
   run ex_env [OpGet] (ex_pool (60 * Second) IdleTimeoutType [0] 2) ex_world1 =
     Inr (ex_pool (60 * Second) IdleTimeoutType [] 2, ex_world1\<lparr>step := 4\<rparr>) \<and>
   call_factory ex_env DialNextTarget (ex_world1\<lparr>step := 4\<rparr>) =
     Inr (Inr 5, ex_world1\<lparr>step := 6, dialed := [''A'', ''A'']\<rparr>) \<and>
   (\<exists>w3. Get ex_env (ex_pool (60 * Second) IdleTimeoutType [] 2) (ex_world1\<lparr>step := 4\<rparr>) =
      Inr (Inr 1, ex_pool (60 * Second) IdleTimeoutType [] 2, w3) \<and> Conn (heap w3 1) = Some 5) \<and>
   call_factory ex_env DialNextTarget
       (ex_world1\<lparr>step := 4, opts := (opts ex_world1)\<lparr>targets := Some (AtSlice [])\<rparr>\<rparr>) =
     Inr (Inl errTargets, ex_world1\<lparr>step := 4, opts := (opts ex_world1)\<lparr>targets := Some (AtSlice [])\<rparr>\<rparr>) \<and>
   Get ex_env (ex_pool (60 * Second) IdleTimeoutType [] 2)
       (ex_world1\<lparr>step := 4, opts := (opts ex_world1)\<lparr>targets := Some (AtSlice [])\<rparr>\<rparr>) =
     Inr (Inl errTargets, ex_pool (60 * Second) IdleTimeoutType [] 2,
          ex_world1\<lparr>step := 4, opts := (opts ex_world1)\<lparr>targets := Some (AtSlice [])\<rparr>\<rparr>)"
proof -
  let ?c1 = "ex_pool (60 * Second) IdleTimeoutType [0] 2"
  let ?c0 = "ex_pool (60 * Second) IdleTimeoutType [] 2"
  let ?wn = "ex_world1\<lparr>step := 4, opts := (opts ex_world1)\<lparr>targets := Some (AtSlice [])\<rparr>\<rparr>"
  have pos: "0 < pool_IdleTimeout ?c1" "0 < pool_IdleTimeout ?c0"
    by (simp_all add: ex_pool_simps ex_defs)
  have h0: "Conn (heap ex_world1_nil 0) = None"
    by (simp add: ex_world1_nil_def)
  have h: "Conn (heap ex_world1 0) = Some 1"
    by (simp add: ex_world1_def)
  have age1: "time_Now ex_env (step ex_world1) - t (heap ex_world1 0) = 1 * Second"
    by (simp add: ex_world1_def ex_defs)
  have age2: "time_Now ex_env (step (ex_world1\<lparr>step := 1000\<rparr>))
      - t (heap (ex_world1\<lparr>step := 1000\<rparr>) 0) = 998 * Second"
    by (simp add: ex_world1_def ex_defs)
  have f1: "call_factory ex_env DialNextTarget (ex_world1\<lparr>step := 4\<rparr>) =
      Inr (Inr 5, ex_world1\<lparr>step := 6, dialed := [''A'', ''A'']\<rparr>)"
    by (simp add: eval_defs)
  have f2: "call_factory ex_env DialNextTarget ?wn = Inr (Inl errTargets, ?wn)"
    by (simp add: eval_defs)
  have n1: "next_ptr (ex_world1\<lparr>step := 6, dialed := [''A'', ''A'']\<rparr>) = 1"
    by (simp add: ex_world1_def)
  have g0: "Get ex_env ?c1 ex_world1_nil = Inr (Inl errClosed, ?c0, ex_world1_nil)"
    using Get_expiry_check [OF ex_NewGRPCPool ex_run_clear_Conn ex_pool_simps(1) pos(1),
        of 0 "[]" 1 ex_world1 errClosed] h0
    by (simp add: ex_pool_simps)
  have g1: "Get ex_env ?c1 ex_world1 = Inr (Inr 0, ?c0, ex_world1\<lparr>step := 4\<rparr>)"
    using Get_expiry_check [OF ex_NewGRPCPool ex_run_Nil ex_pool_simps(1) pos(1),
        of 0 "[]" 1 ex_world1 errClosed] h age1
    by (simp add: ex_pool_simps ex_world1_def ex_defs)
  have g2: "Get ex_env ?c1 (ex_world1\<lparr>step := 1000\<rparr>) =
      Get ex_env ?c0 (ex_world1\<lparr>step := 1002, closed := [1]\<rparr>)"
    using Get_expiry_check [OF ex_NewGRPCPool ex_run_Other ex_pool_simps(1) pos(1),
        of 0 "[]" 1 ex_world1 errClosed] h age2
    by (simp add: ex_pool_simps ex_world1_def ex_defs)
  have g3: "\<exists>w3. Get ex_env ?c0 (ex_world1\<lparr>step := 4\<rparr>) = Inr (Inr 1, ?c0, w3) \<and>
      Conn (heap w3 1) = Some 5"
    using Get_expiry_check [OF ex_NewGRPCPool ex_run_Get ex_pool_simps(1) pos(2),
        of 0 "[]" 5 "ex_world1\<lparr>step := 6, dialed := [''A'', ''A'']\<rparr>" errClosed] f1 n1
    by simp
  have g4: "Get ex_env ?c0 ?wn = Inr (Inl errTargets, ?c0, ?wn)"
    using Get_expiry_check [OF ex_NewGRPCPool ex_run_Get_no_targets ex_pool_simps(1) pos(2),
        of 0 "[]" 0 ?wn errTargets] f2
    by simp
  show ?thesis
    by (intro conjI ex_NewGRPCPool pos(1) h0 h age1 age2 g0 g1 g2 g3 g4 f1 f2
        ex_run_clear_Conn ex_run_Other ex_run_Get)
qed

text \<open>
  C6 as the specification states it fails: on the pool built from \<open>ex_opts\<close>, open and with
  a timeout of a minute, the stored entry is one second old, so it is not expired; the
  client has set its field \<open>Conn\<close> to nil; \<^verbatim>\<open>Get\<close> takes it from the store and does not
  return it, but fails with \<open>errClosed\<close>.
\<close>

theorem Get_fresh_head_without_Conn_fails:
  "NewGRPCPool ex_env (ex_world ex_opts) =
     Inr (Inr (ex_pool (60 * Second) IdleTimeoutType [0] 2), ex_world1) \<and>
   run ex_env [Other (\<lambda>w. w\<lparr>heap := (heap w)(0 := (heap w 0)\<lparr>Conn := None\<rparr>)\<rparr>)]
       (ex_pool (60 * Second) IdleTimeoutType [0] 2) ex_world1 =
     Inr (ex_pool (60 * Second) IdleTimeoutType [0] 2, ex_world1_nil) \<and>
   pool_IdleTimeout (ex_pool (60 * Second) IdleTimeoutType [0] 2) = 60 * Second \<and>
   time_Now ex_env (step ex_world1_nil) - t (heap ex_world1_nil 0) = 1 * Second \<and>
   Get ex_env (ex_pool (60 * Second) IdleTimeoutType [0] 2) ex_world1_nil =
     Inr (Inl errClosed, ex_pool (60 * Second) IdleTimeoutType [] 2, ex_world1_nil)"
  by (simp add: ex_world1_nil_def eval_defs)

section \<open>The bound on the store\<close>

text \<open>
  C7. After \<^verbatim>\<open>NewGRPCPool\<close> and any sequence of calls that returns, the store holds at most
  \<open>MaxCap\<close> entries; and when it holds exactly \<open>MaxCap\<close>, \<^verbatim>\<open>Put\<close> of a wrapper that holds a
  connection closes that connection and leaves the pool, and so \<^verbatim>\<open>IdleCount\<close>, as it was.
\<close>

theorem idle_store_bounded_by_MaxCap:
  assumes "NewGRPCPool e w0 = Inr (Inr pool, w1)" and "run e xs pool w1 = Inr (c, w)"
  shows "int (IdleCount c) \<le> MaxCap (opts w0) \<and>
         (int (IdleCount c) = MaxCap (opts w0) \<and> Conn (heap w p) = Some h \<longrightarrow>
            (\<exists>r w2. Put e c (Some p) w = Inr (r, c, w2) \<and> closed w2 = closed w @ [h]))"
proof (intro conjI impI)
  note inv = reachable_inv [OF assms]
  from pool_inv_IdleCount [OF inv(1)] inv(2)
  show "int (IdleCount c) \<le> MaxCap (opts w0)" by simp
  assume a: "int (IdleCount c) = MaxCap (opts w0) \<and> Conn (heap w p) = Some h"
  with inv(2) obtain ch where ch: "conns c = Some ch"
    by (auto simp: IdleCount_def split: option.splits)
  with inv a have "chan_cap ch \<le> length (chan_buf ch)" and "close c = Some ConnClose"
    by (auto simp: pool_inv_def IdleCount_def)
  from Put_full [OF ch this, of w p h e] a
  show "\<exists>r w2. Put e c (Some p) w = Inr (r, c, w2) \<and> closed w2 = closed w @ [h]"
    by blast
qed

text \<open>
  The pool built from \<open>ex_opts\<close>, with \<open>MaxCap = 2\<close>, filled by one \<^verbatim>\<open>Put\<close>: the next
  \<^verbatim>\<open>Put\<close> closes connection 1.
\<close>

theorem idle_store_bounded_by_MaxCap_witness:
  "NewGRPCPool ex_env (ex_world ex_opts) =
     Inr (Inr (ex_pool (60 * Second) IdleTimeoutType [0] 2), ex_world1) \<and>
   run ex_env [OpPut (Some 0)] (ex_pool (60 * Second) IdleTimeoutType [0] 2) ex_world1 =
     Inr (ex_pool (60 * Second) IdleTimeoutType [0, 0] 2,
          ex_world1\<lparr>step := 4, heap := (heap ex_world1)(0 := \<lparr>Conn = Some 1, t = 3 * Second\<rparr>)\<rparr>) \<and>
   int (IdleCount (ex_pool (60 * Second) IdleTimeoutType [0, 0] 2)) = MaxCap (opts (ex_world ex_opts)) \<and>
   Conn (heap (ex_world1\<lparr>step := 4,
       heap := (heap ex_world1)(0 := \<lparr>Conn = Some 1, t = 3 * Second\<rparr>)\<rparr>) 0) = Some 1 \<and>
   (\<exists>r w2. Put ex_env (ex_pool (60 * Second) IdleTimeoutType [0, 0] 2) (Some 0)
        (ex_world1\<lparr>step := 4, heap := (heap ex_world1)(0 := \<lparr>Conn = Some 1, t = 3 * Second\<rparr>)\<rparr>) =
      Inr (r, ex_pool (60 * Second) IdleTimeoutType [0, 0] 2, w2) \<and>
      closed w2 = [1])"
proof -
  have i: "int (IdleCount (ex_pool (60 * Second) IdleTimeoutType [0, 0] 2)) =
      MaxCap (opts (ex_world ex_opts))"
    by (simp add: IdleCount_def ex_pool_def ex_defs)
  have h: "Conn (heap (ex_world1\<lparr>step := 4,
       heap := (heap ex_world1)(0 := \<lparr>Conn = Some 1, t = 3 * Second\<rparr>)\<rparr>) 0) = Some 1"
    by simp
  have c: "closed ex_world1 = []"
    by (simp add: ex_world1_def)
  from idle_store_bounded_by_MaxCap [OF ex_NewGRPCPool ex_run_Put, of 0 1] i h c
  show ?thesis
    using ex_NewGRPCPool ex_run_Put by simp
qed

section \<open>A close that fails\<close>

text \<open>
  C8 (as amended). What \<^verbatim>\<open>Get\<close> returns, and the state it leaves, do not depend on what the
  closes it makes return: replacing the close oracle by any other changes nothing.
  \<^verbatim>\<open>Put\<close> on a full store returns what the close of the incoming connection returned.
\<close>

theorem close_failure_ignored_by_Get_returned_by_Put:
  "Get (e\<lparr>conn_Close := cl\<rparr>) c w = Get e c w \<and>
   (conns c = Some ch \<and> chan_cap ch \<le> length (chan_buf ch) \<and> close c = Some ConnClose \<and>
      Conn (heap w p) = Some h \<longrightarrow>
      (\<exists>w1. Put e c (Some p) w =
         Inr (conn_Close e (if timeoutType c = IdleTimeoutType then Suc (step w) else step w) h,
              c, w1) \<and>
         closed w1 = closed w @ [h]))"
proof (intro conjI impI)
  show "Get (e\<lparr>conn_Close := cl\<rparr>) c w = Get e c w"
    by (simp add: Get_def Get_loop_close_env split: option.splits)
  assume "conns c = Some ch \<and> chan_cap ch \<le> length (chan_buf ch) \<and> close c = Some ConnClose \<and>
      Conn (heap w p) = Some h"
  then show "\<exists>w1. Put e c (Some p) w =
         Inr (conn_Close e (if timeoutType c = IdleTimeoutType then Suc (step w) else step w) h,
              c, w1) \<and>
         closed w1 = closed w @ [h]"
    by (intro Put_full) blast+
qed

text \<open>
  With every close failing: \<^verbatim>\<open>Get\<close> over an expired entry returns the same new wrapper as
  with every close succeeding, and \<^verbatim>\<open>Put\<close> on a full store returns the failure.
\<close>

theorem close_failure_ignored_by_Get_returned_by_Put_witness:
  "Get ex_env_close_fails (ex_pool (60 * Second) IdleTimeoutType [0] 2) (ex_world1\<lparr>step := 1000\<rparr>) =
     Get ex_env (ex_pool (60 * Second) IdleTimeoutType [0] 2) (ex_world1\<lparr>step := 1000\<rparr>) \<and>
   Get ex_env (ex_pool (60 * Second) IdleTimeoutType [0] 2) (ex_world1\<lparr>step := 1000\<rparr>) =
     Inr (Inr 1, ex_pool (60 * Second) IdleTimeoutType [] 2,
          ex_world1\<lparr>step := 1005,
            heap := (heap ex_world1)(1 := \<lparr>Conn = Some 1003, t = 1004 * Second\<rparr>),
            next_ptr := 2, closed := [1], dialed := [''A'', ''A'']\<rparr>) \<and>
   conns (ex_pool (60 * Second) FixedTimeoutType [0] 1) = Some \<lparr>chan_buf = [0], chan_cap = 1\<rparr> \<and>
   chan_cap \<lparr>chan_buf = [0], chan_cap = 1\<rparr> \<le> length (chan_buf \<lparr>chan_buf = [0], chan_cap = 1\<rparr>) \<and>
   close (ex_pool (60 * Second) FixedTimeoutType [0] 1) = Some ConnClose \<and>
   Conn (heap ex_world2 1) = Some 11 \<and>
   (\<exists>w1. Put ex_env_close_fails (ex_pool (60 * Second) FixedTimeoutType [0] 1) (Some 1) ex_world2 =
      Inr (Some (CloseError 11), ex_pool (60 * Second) FixedTimeoutType [0] 1, w1) \<and>
      closed w1 = [11])"
proof -
  let ?c = "ex_pool (60 * Second) FixedTimeoutType [0] 1"
  let ?ch = "\<lparr>chan_buf = [0::nat], chan_cap = 1\<rparr>"
  have a: "conns ?c = Some ?ch" by (simp add: ex_pool_def)
  have b: "chan_cap ?ch \<le> length (chan_buf ?ch)" by simp
  have c: "close ?c = Some ConnClose" by (simp add: ex_pool_def)
  have d: "Conn (heap ex_world2 1) = Some 11" by (simp add: ex_world2_def)
  note th = close_failure_ignored_by_Get_returned_by_Put
  have g: "Get ex_env_close_fails (ex_pool (60 * Second) IdleTimeoutType [0] 2) (ex_world1\<lparr>step := 1000\<rparr>) =
     Get ex_env (ex_pool (60 * Second) IdleTimeoutType [0] 2) (ex_world1\<lparr>step := 1000\<rparr>)"
    using th [where e = ex_env and cl = "\<lambda>k h. Some (CloseError h)"
        and c = "ex_pool (60 * Second) IdleTimeoutType [0] 2"
        and w = "ex_world1\<lparr>step := 1000\<rparr>" and ch = ?ch and p = 0 and h = 0]
    by (simp add: ex_env_close_fails_def)
  have v: "Get ex_env (ex_pool (60 * Second) IdleTimeoutType [0] 2) (ex_world1\<lparr>step := 1000\<rparr>) =
     Inr (Inr 1, ex_pool (60 * Second) IdleTimeoutType [] 2,
          ex_world1\<lparr>step := 1005,
            heap := (heap ex_world1)(1 := \<lparr>Conn = Some 1003, t = 1004 * Second\<rparr>),
            next_ptr := 2, closed := [1], dialed := [''A'', ''A'']\<rparr>)"
    by (simp add: eval_defs)
  have p: "\<exists>w1. Put ex_env_close_fails ?c (Some 1) ex_world2 =
      Inr (Some (CloseError 11), ?c, w1) \<and> closed w1 = [11]"
    using th [where e = ex_env_close_fails and cl = "conn_Close ex_env_close_fails"
        and c = ?c and w = ex_world2 and ch = ?ch and p = 1 and h = 11] a b c d
    by (simp add: ex_world2_def ex_world1_def ex_pool_simps ex_defs)
  show ?thesis
    by (intro conjI g v a b c d p)
qed

text \<open>
  C8 as the specification states it fails: on a full store of capacity 1, \<^verbatim>\<open>Put\<close> of a
  second connection whose close fails returns that failure, not success.
\<close>

theorem Put_on_full_store_returns_close_error:
  "IdleCount (ex_pool (60 * Second) FixedTimeoutType [0] 1) = 1 \<and>
   Put ex_env_close_fails (ex_pool (60 * Second) FixedTimeoutType [0] 1) (Some 1) ex_world2 =
     Inr (Some (CloseError 11), ex_pool (60 * Second) FixedTimeoutType [0] 1,
          ex_world2\<lparr>step := 4, closed := [11]\<rparr>)"
  by (simp add: ex_world2_def eval_defs)

section \<open>Construction\<close>

text \<open>
  C9. Where \<^verbatim>\<open>NewGRPCPool\<close> returns a pool, the pool holds \<open>InitCap\<close> entries
  (\<open>NewGRPCPool_result\<close>), and where a creation fails, every entry stored so far is closed
  and the error returned (\<open>NewGRPCPool_error\<close>). But a valid configuration need not come to
  either: with the fixed policy, \<open>InitCap = 2\<close> and a timeout of one millisecond,
  construction panics in \<^verbatim>\<open>rand.Int63n\<close> after the first dial has succeeded; no pool and no
  error are returned.
\<close>

theorem NewGRPCPool_valid_config_faults:
  "NewGRPCPool ex_env
     (ex_world (ex_opts\<lparr>InitCap := 2, TimeoutType := FixedTimeoutType, IdleTimeout := Millisecond\<rparr>))
     = Inl Int63nArg"
  by (simp add: numeral_2_eq_2 eval_defs)

section \<open>Releasing twice\<close>

text \<open>
  C10. In every state of a pool built by \<^verbatim>\<open>NewGRPCPool\<close> in which it is open and holds at
  most \<open>MaxCap - 2\<close> entries, \<^verbatim>\<open>Put\<close> of the same wrapper twice in a row succeeds both times;
  the store then holds the wrapper's address twice more, and \<^verbatim>\<open>IdleCount\<close> has grown by 2.
\<close>

theorem Put_same_wrapper_twice:
  assumes "NewGRPCPool e w0 = Inr (Inr pool, w1)" and "run e xs pool w1 = Inr (c, w)"
    and "conns c = Some ch" and "int (IdleCount c) \<le> MaxCap (opts w0) - 2"
    and "Conn (heap w p) \<noteq> None"
  shows "\<exists>c1 w2 c2 w3.
           Put e c (Some p) w = Inr (None, c1, w2) \<and>
           Put e c1 (Some p) w2 = Inr (None, c2, w3) \<and>
           IdleCount c1 = IdleCount c + 1 \<and>
           IdleCount c2 = IdleCount c + 2 \<and>
           conns c2 = Some (ch\<lparr>chan_buf := chan_buf ch @ [p, p]\<rparr>)"
proof -
  note inv = reachable_inv [OF assms(1,2)]
  from inv(1) assms(3) have cap: "chan_cap ch = nat (MaxCap (opts w0))"
    by (simp add: pool_inv_def)
  with assms(3,4) have room: "length (chan_buf ch) + 2 \<le> chan_cap ch"
    by (simp add: IdleCount_def)
  from assms(5) obtain h where h: "Conn (heap w p) = Some h" by auto
  let ?c1 = "c\<lparr>conns := Some (ch\<lparr>chan_buf := chan_buf ch @ [p]\<rparr>)\<rparr>"
  let ?c2 = "?c1\<lparr>conns := Some (ch\<lparr>chan_buf := chan_buf ch @ [p, p]\<rparr>)\<rparr>"
  from room have "length (chan_buf ch) < chan_cap ch" by simp
  from Put_room [OF assms(3) this h, of e] obtain w2
    where p1: "Put e c (Some p) w = Inr (None, ?c1, w2)" and h2: "Conn (heap w2 p) = Some h"
    by blast
  have c1: "conns ?c1 = Some (ch\<lparr>chan_buf := chan_buf ch @ [p]\<rparr>)" by simp
  from room have "length (chan_buf (ch\<lparr>chan_buf := chan_buf ch @ [p]\<rparr>))
      < chan_cap (ch\<lparr>chan_buf := chan_buf ch @ [p]\<rparr>)" by simp
  from Put_room [OF c1 this h2, of e] obtain w3
    where p2: "Put e ?c1 (Some p) w2 = Inr (None, ?c2, w3)"
    by auto
  from assms(3) have "IdleCount ?c1 = IdleCount c + 1" and "IdleCount ?c2 = IdleCount c + 2"
    and "conns ?c2 = Some (ch\<lparr>chan_buf := chan_buf ch @ [p, p]\<rparr>)"
    by (simp_all add: IdleCount_def)
  with p1 p2 show ?thesis by blast
qed

text \<open>
  The pool built from \<open>ex_opts\<close>, emptied by one \<^verbatim>\<open>Get\<close>, takes its entry back twice.
\<close>

theorem Put_same_wrapper_twice_witness:
  "NewGRPCPool ex_env (ex_world ex_opts) =
     Inr (Inr (ex_pool (60 * Second) IdleTimeoutType [0] 2), ex_world1) \<and>
   run ex_env [OpGet] (ex_pool (60 * Second) IdleTimeoutType [0] 2) ex_world1 =
     Inr (ex_pool (60 * Second) IdleTimeoutType [] 2, ex_world1\<lparr>step := 4\<rparr>) \<and>
   conns (ex_pool (60 * Second) IdleTimeoutType [] 2) = Some \<lparr>chan_buf = [], chan_cap = 2\<rparr> \<and>
   int (IdleCount (ex_pool (60 * Second) IdleTimeoutType [] 2)) \<le> MaxCap (opts (ex_world ex_opts)) - 2 \<and>
   Conn (heap (ex_world1\<lparr>step := 4\<rparr>) 0) \<noteq> None \<and>
   (\<exists>c1 w2 c2 w3.
      Put ex_env (ex_pool (60 * Second) IdleTimeoutType [] 2) (Some 0) (ex_world1\<lparr>step := 4\<rparr>) =
        Inr (None, c1, w2) \<and>
      Put ex_env c1 (Some 0) w2 = Inr (None, c2, w3) \<and>
      IdleCount c1 = IdleCount (ex_pool (60 * Second) IdleTimeoutType [] 2) + 1 \<and>
      IdleCount c2 = IdleCount (ex_pool (60 * Second) IdleTimeoutType [] 2) + 2 \<and>
      conns c2 = Some (\<lparr>chan_buf = [], chan_cap = 2\<rparr>\<lparr>chan_buf := chan_buf \<lparr>chan_buf = [], chan_cap = 2\<rparr> @ [0, 0]\<rparr>))"
proof -
  have a: "conns (ex_pool (60 * Second) IdleTimeoutType [] 2) = Some \<lparr>chan_buf = [], chan_cap = 2\<rparr>"
    by (simp add: ex_pool_def)
  have b: "int (IdleCount (ex_pool (60 * Second) IdleTimeoutType [] 2))
      \<le> MaxCap (opts (ex_world ex_opts)) - 2"
    by (simp add: IdleCount_def ex_pool_def ex_defs)
  have c: "Conn (heap (ex_world1\<lparr>step := 4\<rparr>) 0) \<noteq> None"
    by (simp add: ex_world1_def)
  note r = Put_same_wrapper_twice [OF ex_NewGRPCPool ex_run_Get a b c]
  show ?thesis
    by (intro conjI ex_NewGRPCPool ex_run_Get a b c r)
qed

end
